theory Spec2Isabelle
  imports
    Complex_Main
    "HOL-Library.Multiset"
    "HOL-Library.Sublist"
    "HOL-Library.Char_ord"
    "HOL-Library.List_Lexorder"
begin

section \<open>JavaScript values and built-ins the dashboard relies on\<close>

text \<open>
  The report grid (\<^verbatim>\<open>report-grid.tsx\<close>) and the server actions (\<^verbatim>\<open>data.ts\<close>) are
  TypeScript. Strings are lists of code units (\<^typ>\<open>string\<close>), arrays are lists,
  \<^verbatim>\<open>T | null\<close> is \<^typ>\<open>'a option\<close>.

  A JavaScript number is a double. Only the sign of a comparator's result reaches
  \<^verbatim>\<open>Array.prototype.sort\<close>, and the difference of two finite doubles has the sign of
  their exact difference, so finite numbers are rationals here; the two infinities and
  \<^verbatim>\<open>NaN\<close> are kept apart.
\<close>

datatype number = NaN | Fin rat | PosInf | NegInf

text \<open>\<^verbatim>\<open>x - y\<close> on numbers.\<close>

fun num_sub :: "number \<Rightarrow> number \<Rightarrow> number" where
  "num_sub NaN y = NaN"
| "num_sub x NaN = NaN"
| "num_sub (Fin a) (Fin b) = Fin (a - b)"
| "num_sub (Fin a) PosInf = NegInf"
| "num_sub (Fin a) NegInf = PosInf"
| "num_sub PosInf PosInf = NaN"
| "num_sub PosInf y = PosInf"
| "num_sub NegInf NegInf = NaN"
| "num_sub NegInf y = NegInf"

definition isNaN :: "number \<Rightarrow> bool" where
  "isNaN x = (x = NaN)"

text \<open>\<^verbatim>\<open>Number(b)\<close> for a boolean: \<^verbatim>\<open>false\<close> is 0 and \<^verbatim>\<open>true\<close> is 1.\<close>

definition Number_of_bool :: "bool \<Rightarrow> number" where
  "Number_of_bool b = (if b then Fin 1 else Fin 0)"

text \<open>
  Built-ins whose result depends on the engine, its locale data or a long grammar are
  parameters of the model, collected in one record:
  \<^item> \<^verbatim>\<open>String.prototype.toLowerCase\<close>;
  \<^item> \<^verbatim>\<open>String.prototype.trim\<close> (white space is a Unicode notion);
  \<^item> \<^verbatim>\<open>a.localeCompare(b)\<close>: negative, zero or positive;
  \<^item> \<^verbatim>\<open>new Date(s).getTime()\<close>: milliseconds, \<open>None\<close> for an invalid date (\<^verbatim>\<open>NaN\<close>);
  \<^item> the value of a string that is not empty as a numeric literal
    (\<^verbatim>\<open>StringNumericLiteral\<close>: decimal, hexadecimal, \<^verbatim>\<open>Infinity\<close>, surrounded by
    white space), \<^verbatim>\<open>NaN\<close> when it is none.
\<close>

record runtime =
  toLowerCase :: "string \<Rightarrow> string"
  trim :: "string \<Rightarrow> string"
  localeCompare :: "string \<Rightarrow> string \<Rightarrow> int"
  getTime :: "string \<Rightarrow> int option"
  numericLiteral :: "string \<Rightarrow> number"

text \<open>
  \<^verbatim>\<open>Number(s)\<close> for a string: the empty string is the number 0 (the value ECMA-262
  gives the empty \<^verbatim>\<open>StringNumericLiteral\<close>), any other string has the value of its
  numeric literal.
\<close>

definition Number :: "runtime \<Rightarrow> string \<Rightarrow> number" where
  "Number rt s = (if s = [] then Fin 0 else numericLiteral rt s)"

text \<open>
  ECMA-262 requires \<^verbatim>\<open>localeCompare\<close>, taken as a function of two arguments, to be a
  consistent comparator that orders all strings totally. The three conditions below say
  so.
\<close>

definition consistent_comparator :: "('a \<Rightarrow> 'a \<Rightarrow> int) \<Rightarrow> bool" where
  "consistent_comparator c =
     ((\<forall>a. c a a = 0) \<and>
      (\<forall>a b. (c a b < 0) = (0 < c b a)) \<and>
      (\<forall>a b d. c a b \<le> 0 \<longrightarrow> c b d \<le> 0 \<longrightarrow> c a d \<le> 0))"

text \<open>\<^verbatim>\<open>s.includes(t)\<close>: \<open>t\<close> occurs in \<open>s\<close> at some position.\<close>

fun str_includes :: "string \<Rightarrow> string \<Rightarrow> bool" where
  "str_includes [] t = (t = [])"
| "str_includes (c # s) t = (prefix t (c # s) \<or> str_includes s t)"

text \<open>\<^verbatim>\<open>s.split(sep)\<close> for a one-character separator: never empty.\<close>

fun split_on :: "char \<Rightarrow> string \<Rightarrow> string list" where
  "split_on sep [] = [[]]"
| "split_on sep (c # s) =
     (if c = sep then [] # split_on sep s
      else (case split_on sep s of
              [] \<Rightarrow> [[c]]
            | w # ws \<Rightarrow> (c # w) # ws))"

text \<open>
  \<^verbatim>\<open>xs.slice(start, end)\<close>: a negative index counts from the end, both indices are
  clamped to the array, and an empty range gives the empty array.
\<close>

definition slice :: "'a list \<Rightarrow> int \<Rightarrow> int \<Rightarrow> 'a list" where
  "slice xs start end' =
     (let len = int (length xs);
          k = (if start < 0 then max (len + start) 0 else min start len);
          final = (if end' < 0 then max (len + end') 0 else min end' len)
      in take (nat (final - k)) (drop (nat k) xs))"

text \<open>Decimal digits and the value of a string of digits.\<close>

definition is_digit :: "char \<Rightarrow> bool" where
  "is_digit c = (let n = (of_char c :: nat) in 48 \<le> n \<and> n \<le> 57)"

definition digits_value :: "string \<Rightarrow> nat" where
  "digits_value s = foldl (\<lambda>acc c. 10 * acc + (of_char c - 48)) 0 s"

subsection \<open>\<^verbatim>\<open>Array.prototype.sort\<close> with a comparator\<close>

text \<open>
  The engine calls the comparator and reads its result as a number; \<^verbatim>\<open>NaN\<close> counts
  as \<open>+0\<close>, and \<open>x\<close> may stand before \<open>y\<close> when the result is not positive. Since
  ES2019 the sort is stable. When the comparator is consistent on the elements of the
  array (below: any two are comparable, and the order is transitive), the result is
  unique (lemma \<open>array_sort_unique\<close>), and it is what the insertion below computes: an
  element goes in front of the first later element that it does not have to follow.
  When the comparator is not consistent, the order is left to the engine and
  \<open>array_sort\<close> stands for no engine in particular: there only the fact that the result
  is a permutation of the array carries over, and every statement below about the order
  of a sorted array has the consistency of the comparator among its conditions.
\<close>

fun sort_sign :: "number \<Rightarrow> int" where
  "sort_sign NaN = 0"
| "sort_sign (Fin q) = (if q < 0 then -1 else if q = 0 then 0 else 1)"
| "sort_sign PosInf = 1"
| "sort_sign NegInf = -1"

fun insert_sorted :: "('a \<Rightarrow> 'a \<Rightarrow> number) \<Rightarrow> 'a \<Rightarrow> 'a list \<Rightarrow> 'a list" where
  "insert_sorted cmp x [] = [x]"
| "insert_sorted cmp x (y # ys) =
     (if sort_sign (cmp x y) \<le> 0 then x # y # ys else y # insert_sorted cmp x ys)"

definition array_sort :: "('a \<Rightarrow> 'a \<Rightarrow> number) \<Rightarrow> 'a list \<Rightarrow> 'a list" where
  "array_sort cmp xs = foldr (insert_sorted cmp) xs []"

definition consistent_on :: "('a \<Rightarrow> 'a \<Rightarrow> number) \<Rightarrow> 'a list \<Rightarrow> bool" where
  "consistent_on cmp xs =
     ((\<forall>a\<in>set xs. \<forall>b\<in>set xs. sort_sign (cmp a b) \<le> 0 \<or> sort_sign (cmp b a) \<le> 0) \<and>
      (\<forall>a\<in>set xs. \<forall>b\<in>set xs. \<forall>c\<in>set xs.
          sort_sign (cmp a b) \<le> 0 \<longrightarrow> sort_sign (cmp b c) \<le> 0 \<longrightarrow> sort_sign (cmp a c) \<le> 0))"

section \<open>Data model\<close>

text \<open>The \<^verbatim>\<open>Report\<close> interface of \<^verbatim>\<open>data.ts\<close>; \<open>data\<close> holds the parsed CSV records.\<close>

record report =
  id_of :: string
  name :: string
  isActive :: bool
  data :: "(string \<times> string) list list"
  tags :: "string list"
  date :: string

text \<open>\<^verbatim>\<open>PAGE_SIZE_OPTIONS = [5, 10, 50, 100, 'All']\<close>: a number of rows, or all of them.\<close>

datatype PageSize = Rows nat | AllRows

datatype SortDirection = Asc | Desc

datatype SortField = Name | Date | Status

record SortState =
  field :: "SortField option"
  direction :: "SortDirection option"

text \<open>The table \<^verbatim>\<open>parseCSV\<close> returns: \<^verbatim>\<open>{ headers, rows }\<close>.\<close>

record csv_table =
  headers :: "string list"
  rows :: "string list list"

datatype js_error = TypeError

section \<open>Filtering\<close>

text \<open>
  \<^verbatim>\<open>filterReports\<close>. The test \<^verbatim>\<open>!tagFilter\<close> holds for \<^verbatim>\<open>null\<close> and for the empty
  string; \<^verbatim>\<open>statusFilter === null\<close> holds for \<^verbatim>\<open>null\<close> only.
\<close>

definition filterReports ::
  "runtime \<Rightarrow> report list \<Rightarrow> string \<Rightarrow> string option \<Rightarrow> bool option \<Rightarrow> report list" where
  "filterReports rt reports searchTerm tagFilter statusFilter =
     filter (\<lambda>report.
       let matchesSearch = (searchTerm = [] \<or>
             str_includes (toLowerCase rt (name report)) (toLowerCase rt searchTerm));
           matchesTag = (case tagFilter of
               None \<Rightarrow> True
             | Some t \<Rightarrow> t = [] \<or> t \<in> set (tags report));
           matchesStatus = (case statusFilter of
               None \<Rightarrow> True
             | Some s \<Rightarrow> isActive report = s)
       in matchesSearch \<and> matchesTag \<and> matchesStatus) reports"

section \<open>Sorting\<close>

text \<open>
  The comparator of \<^verbatim>\<open>sortReports\<close>. An invalid date has the time \<^verbatim>\<open>NaN\<close>, and so has
  every difference with it.
\<close>

definition date_time :: "runtime \<Rightarrow> string \<Rightarrow> number" where
  "date_time rt s = (case getTime rt s of None \<Rightarrow> NaN | Some t \<Rightarrow> Fin (of_int t))"

definition compareReports ::
  "runtime \<Rightarrow> SortField \<Rightarrow> SortDirection \<Rightarrow> report \<Rightarrow> report \<Rightarrow> number" where
  "compareReports rt f d a b =
     (case f of
        Name \<Rightarrow>
          (if d = Asc then Fin (of_int (localeCompare rt (name a) (name b)))
           else Fin (of_int (localeCompare rt (name b) (name a))))
      | Date \<Rightarrow>
          (if d = Asc then num_sub (date_time rt (date a)) (date_time rt (date b))
           else num_sub (date_time rt (date b)) (date_time rt (date a)))
      | Status \<Rightarrow>
          (if d = Asc then num_sub (Number_of_bool (isActive a)) (Number_of_bool (isActive b))
           else num_sub (Number_of_bool (isActive b)) (Number_of_bool (isActive a))))"

text \<open>\<^verbatim>\<open>sortReports\<close>: the list itself when field or direction is \<^verbatim>\<open>null\<close>, else a sorted copy.\<close>

definition sortReports :: "runtime \<Rightarrow> report list \<Rightarrow> SortState \<Rightarrow> report list" where
  "sortReports rt reports st =
     (case (field st, direction st) of
        (Some f, Some d) \<Rightarrow> array_sort (compareReports rt f d) reports
      | _ \<Rightarrow> reports)"

text \<open>
  \<^verbatim>\<open>handleSort\<close>: the same field steps ascending, descending, none; another field starts
  ascending.
\<close>

definition handleSort :: "SortField option \<Rightarrow> SortState \<Rightarrow> SortState" where
  "handleSort f prev =
     \<lparr> field = f,
       direction =
         (if field prev = f
          then (if direction prev = Some Asc then Some Desc
                else if direction prev = Some Desc then None
                else Some Asc)
          else Some Asc) \<rparr>"

section \<open>Grouping by date\<close>

text \<open>\<^verbatim>\<open>report.date.split('T')[0]\<close>\<close>

definition dateKey :: "report \<Rightarrow> string" where
  "dateKey report = hd (split_on CHR ''T'' (date report))"

text \<open>
  The accumulator of the \<^verbatim>\<open>reduce\<close> is the object literal \<^verbatim>\<open>{}\<close>: its own properties,
  in creation order, are the groups, and it inherits the properties of
  \<^verbatim>\<open>Object.prototype\<close>. For an inherited name \<^verbatim>\<open>acc[date]\<close> is a function or an object,
  so no array is created and \<^verbatim>\<open>acc[date].push\<close> is not a function.
\<close>

definition inherited_properties :: "string list" where
  "inherited_properties =
     [''constructor'', ''__proto__'', ''hasOwnProperty'', ''isPrototypeOf'',
      ''propertyIsEnumerable'', ''toLocaleString'', ''toString'', ''valueOf'',
      ''__defineGetter__'', ''__defineSetter__'', ''__lookupGetter__'', ''__lookupSetter__'']"

definition group_step ::
  "(string \<times> report list) list \<Rightarrow> report \<Rightarrow> js_error + (string \<times> report list) list" where
  "group_step acc report =
     (let key = dateKey report in
      case map_of acc key of
        Some g \<Rightarrow> Inr (map (\<lambda>(k, v). if k = key then (k, v @ [report]) else (k, v)) acc)
      | None \<Rightarrow>
          if key \<in> set inherited_properties then Inl TypeError
          else Inr (acc @ [(key, [report])]))"

fun reduce_groups ::
  "(string \<times> report list) list \<Rightarrow> report list \<Rightarrow> js_error + (string \<times> report list) list" where
  "reduce_groups acc [] = Inr acc"
| "reduce_groups acc (r # rs) =
     (case group_step acc r of
        Inl e \<Rightarrow> Inl e
      | Inr acc' \<Rightarrow> reduce_groups acc' rs)"

text \<open>
  \<^verbatim>\<open>Object.entries\<close>: the keys that are array indices (canonical decimal numerals below
  \<open>2\<^sup>3\<^sup>2 - 1\<close>) come first, in ascending numeric order, then the other keys in creation
  order.
\<close>

definition is_array_index :: "string \<Rightarrow> bool" where
  "is_array_index s =
     (s \<noteq> [] \<and> list_all is_digit s \<and> (s = ''0'' \<or> hd s \<noteq> CHR ''0'') \<and>
      digits_value s < 4294967295)"

definition object_entries :: "(string \<times> 'v) list \<Rightarrow> (string \<times> 'v) list" where
  "object_entries obj =
     sort_key (\<lambda>(k, v). digits_value k) (filter (\<lambda>(k, v). is_array_index k) obj) @
     filter (\<lambda>(k, v). \<not> is_array_index k) obj"

text \<open>\<^verbatim>\<open>groupReportsByDate\<close>: filter, group, then order the entries by \<^verbatim>\<open>dateB.localeCompare(dateA)\<close>.\<close>

definition groupReportsByDate ::
  "runtime \<Rightarrow> report list \<Rightarrow> string \<Rightarrow> string option \<Rightarrow> bool option
     \<Rightarrow> js_error + (string \<times> report list) list" where
  "groupReportsByDate rt reports searchTerm tagFilter statusFilter =
     (let filteredReports = filterReports rt reports searchTerm tagFilter statusFilter in
      case reduce_groups [] filteredReports of
        Inl e \<Rightarrow> Inl e
      | Inr grouped \<Rightarrow>
          Inr (array_sort (\<lambda>(dateA, _) (dateB, _). Fin (of_int (localeCompare rt dateB dateA)))
                 (object_entries grouped)))"

section \<open>Pagination\<close>

text \<open>\<^verbatim>\<open>typeof pageSize === 'number' ? pageSize : d\<close>\<close>

definition size_or :: "PageSize \<Rightarrow> int \<Rightarrow> int" where
  "size_or ps d = (case ps of Rows n \<Rightarrow> int n | AllRows \<Rightarrow> d)"

text \<open>
  \<^verbatim>\<open>getPaginatedData\<close> and \<^verbatim>\<open>getPaginatedReports\<close> have the same body, one over the CSV
  rows with \<^verbatim>\<open>pageSize\<close> and \<^verbatim>\<open>currentPage\<close>, the other over the reports with
  \<^verbatim>\<open>gridPageSize\<close> and \<^verbatim>\<open>gridCurrentPage\<close>.
\<close>

definition getPaginated :: "PageSize \<Rightarrow> int \<Rightarrow> 'a list \<Rightarrow> 'a list" where
  "getPaginated ps page xs =
     (if ps = AllRows then xs
      else (let startIndex = (page - 1) * size_or ps 0;
                endIndex = startIndex + size_or ps 0
            in slice xs startIndex endIndex))"

text \<open>
  The page controls: rendered when \<^verbatim>\<open>pageSize !== 'All' && length > pageSize\<close>, and then
  the page count shown and used by Next and Last is
  \<^verbatim>\<open>Math.ceil(length / (typeof pageSize === 'number' ? pageSize : 1))\<close>.
\<close>

definition controls_shown :: "nat \<Rightarrow> PageSize \<Rightarrow> bool" where
  "controls_shown n ps = (ps \<noteq> AllRows \<and> int n > size_or ps 0)"

definition page_count :: "nat \<Rightarrow> PageSize \<Rightarrow> int" where
  "page_count n ps = \<lceil>(of_nat n :: rat) / of_int (size_or ps 1)\<rceil>"

section \<open>The CSV detail view\<close>

text \<open>
  \<^verbatim>\<open>parseCSV\<close>: the first line gives the headers; a later line is kept when it has as
  many cells as there are headers and some cell is not empty.
\<close>

definition parseCSV :: "runtime \<Rightarrow> string \<Rightarrow> csv_table" where
  "parseCSV rt csv =
     (let lines = split_on CHR 0x0A csv;
          hs = map (trim rt) (split_on CHR '','' (hd lines));
          rs = filter (\<lambda>row. length row = length hs \<and> list_ex (\<lambda>cell. cell \<noteq> []) row)
                 (map (\<lambda>line. map (trim rt) (split_on CHR '','' line)) (tl lines))
      in \<lparr> headers = hs, rows = rs \<rparr>)"

text \<open>
  The comparator of the column sort, on the two cells \<^verbatim>\<open>a[csvSortField]\<close> and
  \<^verbatim>\<open>b[csvSortField]\<close>: numeric when neither \<^verbatim>\<open>Number\<close> is \<^verbatim>\<open>NaN\<close>, else
  \<^verbatim>\<open>localeCompare\<close>.
\<close>

definition compareCells :: "runtime \<Rightarrow> SortDirection \<Rightarrow> string \<Rightarrow> string \<Rightarrow> number" where
  "compareCells rt dir valueA valueB =
     (let numA = Number rt valueA;
          numB = Number rt valueB
      in if \<not> isNaN numA \<and> \<not> isNaN numB
         then (if dir = Asc then num_sub numA numB else num_sub numB numA)
         else (if dir = Asc then Fin (of_int (localeCompare rt valueA valueB))
               else Fin (of_int (localeCompare rt valueB valueA))))"

text \<open>
  \<^verbatim>\<open>getProcessedCsvData\<close>, with the three pieces of state it reads as arguments. The
  rows come from \<^verbatim>\<open>parseCSV\<close> and the column is the index of a header, so
  \<^verbatim>\<open>a[csvSortField]\<close> is a cell of the row (lemma \<open>parseCSV_rows\<close> below).
\<close>

definition getProcessedCsvData ::
  "runtime \<Rightarrow> string \<Rightarrow> nat option \<Rightarrow> SortDirection option \<Rightarrow> csv_table \<Rightarrow> csv_table" where
  "getProcessedCsvData rt csvFilter csvSortField csvSortDirection table =
     (let processedRows = rows table;
          processedRows =
            (if csvFilter \<noteq> []
             then filter (\<lambda>row. list_ex (\<lambda>cell.
                    str_includes (toLowerCase rt cell) (toLowerCase rt csvFilter)) row)
                    processedRows
             else processedRows);
          processedRows =
            (case (csvSortField, csvSortDirection) of
               (Some col, Some dir) \<Rightarrow>
                 array_sort (\<lambda>a b. compareCells rt dir (a ! col) (b ! col)) processedRows
             | _ \<Rightarrow> processedRows)
      in \<lparr> headers = headers table, rows = processedRows \<rparr>)"

section \<open>Persistence: \<^verbatim>\<open>structure.json\<close>\<close>

text \<open>
  \<^verbatim>\<open>data.ts\<close> reads and rewrites one JSON file. A folder lists its reports with their
  metadata. Reading (with \<^verbatim>\<open>JSON.parse\<close>) and writing can fail.
\<close>

record stored_report =
  sr_id :: string
  sr_name :: string
  sr_isActive :: bool
  sr_tags :: "string list"
  sr_date :: string

record folder =
  folder_id :: string
  folder_name :: string
  folder_reports :: "stored_report list"

datatype io_error = IOError

text \<open>
  The file holds the folders, or nothing that \<^verbatim>\<open>JSON.parse\<close> accepts (\<open>None\<close>).
  \<^verbatim>\<open>fs.writeFile\<close> opens the file, which empties it, and then writes: when the file
  cannot be opened (\<open>writable\<close> is false) it stays as it is; when it is opened and the
  data cannot be written (\<open>write_completes\<close> is false) what remains is not the JSON it
  held.
\<close>

record disk =
  structure_json :: "folder list option"
  readable :: bool
  writable :: bool
  write_completes :: bool

definition readFile :: "disk \<Rightarrow> io_error + folder list" where
  "readFile d =
     (if readable d
      then (case structure_json d of None \<Rightarrow> Inl IOError | Some v \<Rightarrow> Inr v)
      else Inl IOError)"

definition writeFile :: "disk \<Rightarrow> folder list \<Rightarrow> (io_error + unit) \<times> disk" where
  "writeFile d v =
     (if \<not> writable d then (Inl IOError, d)
      else if \<not> write_completes d then (Inl IOError, d\<lparr>structure_json := None\<rparr>)
      else (Inr (), d\<lparr>structure_json := Some v\<rparr>))"

text \<open>
  \<^verbatim>\<open>toggleReportStatus\<close>: its own \<^verbatim>\<open>try/catch\<close> turns every failure into the result
  \<^verbatim>\<open>false\<close> and a line on the server's console; it never throws. The result is the
  value returned, the disk afterwards and the lines logged.
\<close>

definition toggleReportStatus :: "disk \<Rightarrow> string \<Rightarrow> bool \<Rightarrow> bool \<times> disk \<times> string list" where
  "toggleReportStatus d reportId status =
     (case readFile d of
        Inl e \<Rightarrow> (False, d, [''Error toggling report status:''])
      | Inr folders \<Rightarrow>
          (let updated = map (\<lambda>f. f\<lparr>folder_reports :=
                 map (\<lambda>r. if sr_id r = reportId then r\<lparr>sr_isActive := status\<rparr> else r)
                   (folder_reports f)\<rparr>) folders
           in case writeFile d updated of
                (Inl e, d') \<Rightarrow> (False, d', [''Error toggling report status:''])
              | (Inr u, d') \<Rightarrow> (True, d', [])))"

section \<open>The component's state and its handlers\<close>

text \<open>
  The \<^verbatim>\<open>useState\<close> cells of \<^verbatim>\<open>ReportGrid\<close> that the view of the reports and of the
  CSV table depends on, with their initial values.
\<close>

record grid =
  reports :: "report list"
  groupByDate :: bool
  gridPageSize :: PageSize
  gridCurrentPage :: int
  searchTerm :: string
  sortState :: SortState
  activeTagFilter :: "string option"
  activeStatusFilter :: "bool option"
  csvData :: "csv_table option"
  pageSize :: PageSize
  currentPage :: int
  csvSortField :: "nat option"
  csvSortDirection :: "SortDirection option"
  csvFilter :: string

definition initial :: "report list \<Rightarrow> grid" where
  "initial rs =
     \<lparr> reports = rs, groupByDate = True, gridPageSize = Rows 10, gridCurrentPage = 1,
       searchTerm = [], sortState = \<lparr> field = None, direction = None \<rparr>,
       activeTagFilter = None, activeStatusFilter = None,
       csvData = None, pageSize = Rows 10, currentPage = 1,
       csvSortField = None, csvSortDirection = None, csvFilter = [] \<rparr>"

text \<open>\<^verbatim>\<open>processedReports\<close>: filter, then sort.\<close>

definition processedReports :: "runtime \<Rightarrow> grid \<Rightarrow> report list" where
  "processedReports rt st =
     sortReports rt
       (filterReports rt (reports st) (searchTerm st) (activeTagFilter st)
          (activeStatusFilter st))
       (sortState st)"

definition getPaginatedReports :: "grid \<Rightarrow> report list \<Rightarrow> report list" where
  "getPaginatedReports st rs = getPaginated (gridPageSize st) (gridCurrentPage st) rs"

definition getPaginatedData :: "grid \<Rightarrow> csv_table \<Rightarrow> string list list" where
  "getPaginatedData st table = getPaginated (pageSize st) (currentPage st) (rows table)"

text \<open>
  What is rendered for the reports: the date groups when grouping is on, else the table
  body \<^verbatim>\<open>getPaginatedReports(processedReports)\<close>.
\<close>

datatype view = Groups "(string \<times> report list) list" | Table "report list"

definition render :: "runtime \<Rightarrow> grid \<Rightarrow> js_error + view" where
  "render rt st =
     (if groupByDate st
      then (case groupReportsByDate rt (reports st) (searchTerm st) (activeTagFilter st)
                   (activeStatusFilter st) of
              Inl e \<Rightarrow> Inl e
            | Inr gs \<Rightarrow> Inr (Groups gs))
      else Inr (Table (getPaginatedReports st (processedReports rt st))))"

text \<open>
  The page controls of the table. They are rendered in the ungrouped view when
  \<^verbatim>\<open>gridPageSize !== 'All' && reports.length > gridPageSize\<close>; First and Previous are
  disabled on page 1, Next and Last on page \<^verbatim>\<open>Math.ceil(reports.length / gridPageSize)\<close>.
  A control that is not rendered or is disabled cannot be clicked.
\<close>

definition grid_controls :: "grid \<Rightarrow> bool" where
  "grid_controls st = (\<not> groupByDate st \<and> controls_shown (length (reports st)) (gridPageSize st))"

definition grid_page_count :: "grid \<Rightarrow> int" where
  "grid_page_count st = page_count (length (reports st)) (gridPageSize st)"

text \<open>
  \<^verbatim>\<open>handleRemoveTag\<close>: the tag leaves the report, and a tag filter on that tag is
  cleared.
\<close>

definition handleRemoveTag :: "string \<Rightarrow> string \<Rightarrow> grid \<Rightarrow> grid" where
  "handleRemoveTag reportId tagToRemove st =
     st\<lparr> reports :=
           map (\<lambda>report. if id_of report = reportId
                         then report\<lparr>tags := filter (\<lambda>tag. tag \<noteq> tagToRemove) (tags report)\<rparr>
                         else report) (reports st),
         activeTagFilter :=
           (if activeTagFilter st = Some tagToRemove then None else activeTagFilter st) \<rparr>"

text \<open>
  What the footer of the table shows when the page controls are rendered,
  \<^verbatim>\<open>Page {gridCurrentPage} of {Math.ceil(reports.length / gridPageSize)}\<close>: the page
  and the page count.
\<close>

definition grid_footer :: "grid \<Rightarrow> (int \<times> int) option" where
  "grid_footer st =
     (if grid_controls st then Some (gridCurrentPage st, grid_page_count st) else None)"

datatype action =
    First | Previous | Next | Last
  | SetSearchTerm string
  | SelectTag string
  | SelectStatus string
  | SelectGridPageSize PageSize
  | ToggleGrouping
  | ClickSort SortField
  | RemoveTag string string

fun step :: "grid \<Rightarrow> action \<Rightarrow> grid" where
  "step st First =
     (if grid_controls st \<and> gridCurrentPage st \<noteq> 1 then st\<lparr>gridCurrentPage := 1\<rparr> else st)"
| "step st Previous =
     (if grid_controls st \<and> gridCurrentPage st \<noteq> 1
      then st\<lparr>gridCurrentPage := max (gridCurrentPage st - 1) 1\<rparr> else st)"
| "step st Next =
     (if grid_controls st \<and> gridCurrentPage st \<noteq> grid_page_count st
      then st\<lparr>gridCurrentPage := gridCurrentPage st + 1\<rparr> else st)"
| "step st Last =
     (if grid_controls st \<and> gridCurrentPage st \<noteq> grid_page_count st
      then st\<lparr>gridCurrentPage := grid_page_count st\<rparr> else st)"
| "step st (SetSearchTerm v) = st\<lparr>searchTerm := v\<rparr>"
| "step st (SelectTag v) = st\<lparr>activeTagFilter := (if v = [] then None else Some v)\<rparr>"
| "step st (SelectStatus v) =
     st\<lparr>activeStatusFilter := (if v = [] then None else Some (v = ''true''))\<rparr>"
| "step st (SelectGridPageSize ps) = st\<lparr>gridPageSize := ps, gridCurrentPage := 1\<rparr>"
| "step st ToggleGrouping = st\<lparr>groupByDate := \<not> groupByDate st\<rparr>"
| "step st (ClickSort f) =
     (if groupByDate st then st else st\<lparr>sortState := handleSort (Some f) (sortState st)\<rparr>)"
| "step st (RemoveTag reportId tagToRemove) = handleRemoveTag reportId tagToRemove st"

definition run :: "grid \<Rightarrow> action list \<Rightarrow> grid" where
  "run st acts = foldl step st acts"

text \<open>
  A click on the header of CSV column \<open>index\<close>. The direction is stepped by an updater
  function; the test \<^verbatim>\<open>csvSortDirection === 'desc'\<close> reads the value of the render in
  which the click happens, which is the value the updater receives.
\<close>

definition clickCsvHeader :: "nat \<Rightarrow> grid \<Rightarrow> grid" where
  "clickCsvHeader index st =
     (if csvSortField st = Some index
      then st\<lparr> csvSortDirection :=
                  (if csvSortDirection st = Some Asc then Some Desc
                   else if csvSortDirection st = Some Desc then None
                   else Some Asc),
                csvSortField :=
                  (if csvSortDirection st = Some Desc then None else csvSortField st) \<rparr>
      else st\<lparr> csvSortField := Some index, csvSortDirection := Some Asc \<rparr>)"

definition processedCsv :: "runtime \<Rightarrow> grid \<Rightarrow> csv_table \<Rightarrow> csv_table" where
  "processedCsv rt st table =
     getProcessedCsvData rt (csvFilter st) (csvSortField st) (csvSortDirection st) table"

text \<open>
  \<^verbatim>\<open>handleToggleActive\<close>: awaits the server action, drops the value it returns, and flips
  the flag of the report in memory; its \<^verbatim>\<open>catch\<close> would log and skip the update, but
  the action never throws.
\<close>

definition handleToggleActive ::
  "grid \<times> disk \<Rightarrow> string \<Rightarrow> bool \<Rightarrow> grid \<times> disk \<times> string list" where
  "handleToggleActive sd reportId currentStatus =
     (case sd of (st, d) \<Rightarrow>
        (case toggleReportStatus d reportId (\<not> currentStatus) of
           (returned, d', logged) \<Rightarrow>
             (st\<lparr>reports :=
                   map (\<lambda>report. if id_of report = reportId
                                 then report\<lparr>isActive := \<not> isActive report\<rparr>
                                 else report) (reports st)\<rparr>,
              d', logged)))"

section \<open>A concrete runtime for examples\<close>

text \<open>
  Examples are evaluated with ASCII strings: lower-casing maps \<open>A\<close>..\<open>Z\<close> to
  \<open>a\<close>..\<open>z\<close>, trimming removes the ASCII white space (tab, line feed, vertical
  tab, form feed, carriage return, space), strings compare by code unit, a date is valid when its part before
  \<open>T\<close> has the form \<open>YYYY-MM-DD\<close> (the digits of the day then stand for the instant,
  which is enough to order days), and a numeric literal is a string of digits, with or
  without a minus sign in front, read as its decimal value; anything else is \<^verbatim>\<open>NaN\<close>.
\<close>

definition lower_char :: "char \<Rightarrow> char" where
  "lower_char c =
     (case map_of (zip ''ABCDEFGHIJKLMNOPQRSTUVWXYZ'' ''abcdefghijklmnopqrstuvwxyz'') c of
        Some l \<Rightarrow> l
      | None \<Rightarrow> c)"

definition is_space :: "char \<Rightarrow> bool" where
  "is_space c = (c \<in> set [CHR 0x09, CHR 0x0A, CHR 0x0B, CHR 0x0C, CHR 0x0D, CHR 0x20])"

definition ascii_trim :: "string \<Rightarrow> string" where
  "ascii_trim s = rev (dropWhile is_space (rev (dropWhile is_space s)))"

definition code_unit_compare :: "string \<Rightarrow> string \<Rightarrow> int" where
  "code_unit_compare a b = (if a < b then -1 else if a = b then 0 else 1)"

definition iso_day :: "string \<Rightarrow> bool" where
  "iso_day s =
     (length s = 10 \<and> s ! 4 = CHR ''-'' \<and> s ! 7 = CHR ''-'' \<and>
      list_all is_digit (take 4 s @ take 2 (drop 5 s) @ drop 8 s))"

definition example_getTime :: "string \<Rightarrow> int option" where
  "example_getTime s =
     (let day = takeWhile (\<lambda>c. c \<noteq> CHR ''T'') s in
      if iso_day day
      then Some (int (digits_value (take 4 day @ take 2 (drop 5 day) @ drop 8 day)))
      else None)"

definition example_Number :: "string \<Rightarrow> number" where
  "example_Number s =
     (if list_all is_digit s then Fin (of_nat (digits_value s))
      else if hd s = CHR ''-'' \<and> tl s \<noteq> [] \<and> list_all is_digit (tl s)
      then Fin (- of_nat (digits_value (tl s)))
      else NaN)"

definition example_runtime :: runtime where
  "example_runtime =
     \<lparr> toLowerCase = map lower_char,
       trim = ascii_trim,
       localeCompare = code_unit_compare,
       getTime = example_getTime,
       numericLiteral = example_Number \<rparr>"

text \<open>
  A second runtime compares strings as a dictionary does, letters first without regard
  to case (\<open>a\<close> before \<open>B\<close>), and by code unit only between strings that differ in
  case alone.
\<close>

definition dictionary_compare :: "string \<Rightarrow> string \<Rightarrow> int" where
  "dictionary_compare a b =
     (if map lower_char a < map lower_char b then -1
      else if map lower_char b < map lower_char a then 1
      else code_unit_compare a b)"

definition dictionary_runtime :: runtime where
  "dictionary_runtime = example_runtime\<lparr>localeCompare := dictionary_compare\<rparr>"

definition mk_report :: "string \<Rightarrow> string \<Rightarrow> bool \<Rightarrow> string list \<Rightarrow> string \<Rightarrow> report" where
  "mk_report i n a ts d =
     \<lparr> id_of = i, name = n, isActive = a, data = [], tags = ts, date = d \<rparr>"

section \<open>The orders the specification names\<close>

text \<open>
  These two predicates follow the words of the specification of the sort stage, to be
  compared with \<^const>\<open>sortReports\<close>: \<open>spec_before\<close> says that \<open>a\<close> may stand before \<open>b\<close>
  (names by \<^verbatim>\<open>localeCompare\<close>, dates by their timestamp, status with inactive as 0 and
  active as 1; the other way round when descending), \<open>spec_same_key\<close> that two records
  have equal keys.
\<close>

definition spec_before ::
  "runtime \<Rightarrow> SortField \<Rightarrow> SortDirection \<Rightarrow> report \<Rightarrow> report \<Rightarrow> bool" where
  "spec_before rt f d a b =
     (case f of
        Name \<Rightarrow>
          (if d = Asc then localeCompare rt (name a) (name b) \<le> 0
           else localeCompare rt (name b) (name a) \<le> 0)
      | Date \<Rightarrow>
          (if d = Asc then the (getTime rt (date a)) \<le> the (getTime rt (date b))
           else the (getTime rt (date b)) \<le> the (getTime rt (date a)))
      | Status \<Rightarrow>
          (if d = Asc then (of_bool (isActive a) :: nat) \<le> of_bool (isActive b)
           else (of_bool (isActive b) :: nat) \<le> of_bool (isActive a)))"

definition spec_same_key :: "runtime \<Rightarrow> SortField \<Rightarrow> report \<Rightarrow> report \<Rightarrow> bool" where
  "spec_same_key rt f a b =
     (case f of
        Name \<Rightarrow> localeCompare rt (name a) (name b) = 0
      | Date \<Rightarrow> getTime rt (date a) = getTime rt (date b)
      | Status \<Rightarrow> isActive a = isActive b)"

text \<open>
  The three records of the specification's example: B and A on 2 January 2024 (B active,
  A inactive), C on 1 January 2024.
\<close>

definition example_reports :: "report list" where
  "example_reports =
     [mk_report ''1'' ''B'' True [''x''] ''2024-01-02'',
      mk_report ''2'' ''A'' False [] ''2024-01-02T10:30:00Z'',
      mk_report ''3'' ''C'' True [''y''] ''2024-01-01'']"

text \<open>A CSV table, six reports for two pages of five, and a disk holding report B.\<close>

definition example_table :: csv_table where
  "example_table =
     \<lparr> headers = [''name'', ''n''],
       rows = [[''abc'', ''10''], [''xyz'', ''2''], [''cab'', '''']] \<rparr>"

definition more_reports :: "report list" where
  "more_reports =
     example_reports @
     [mk_report ''4'' ''D'' True [] ''2024-01-03'',
      mk_report ''5'' ''E'' False [] ''2024-01-04'',
      mk_report ''6'' ''F'' True [] ''2024-01-05'']"

definition example_disk :: disk where
  "example_disk =
     \<lparr> structure_json =
         Some [\<lparr> folder_id = ''f1'', folder_name = ''Folder 1'',
            folder_reports =
              [\<lparr> sr_id = ''1'', sr_name = ''B'', sr_isActive = True, sr_tags = [''x''],
                 sr_date = ''2024-01-02'' \<rparr>] \<rparr>],
       readable = True, writable = True, write_completes = True \<rparr>"


section \<open>Notions used to state the grouping\<close>

text \<open>
  The group an accumulator holds under a key (empty when it has none), and the
  invariant of the \<^verbatim>\<open>reduce\<close>: keys are distinct, no group is empty, and every record
  lies under its own date key.
\<close>

definition group_of :: "(string \<times> report list) list \<Rightarrow> string \<Rightarrow> report list" where
  "group_of acc k = (case map_of acc k of None \<Rightarrow> [] | Some g \<Rightarrow> g)"

definition group_inv :: "(string \<times> report list) list \<Rightarrow> bool" where
  "group_inv acc =
     (distinct (map fst acc) \<and>
      list_all (\<lambda>(k, g). g \<noteq> [] \<and> list_all (\<lambda>r. dateKey r = k) g) acc)"

section \<open>Properties of the built-ins\<close>

lemma str_includes_iff: "str_includes s t \<longleftrightarrow> (\<exists>pre post. s = pre @ t @ post)"
proof (induction s)
  case Nil
  then show ?case by auto
next
  case (Cons c s)
  show ?case
  proof
    assume "str_includes (c # s) t"
    then consider "prefix t (c # s)" | "str_includes s t" by auto
    then show "\<exists>pre post. c # s = pre @ t @ post"
    proof cases
      case 1
      then obtain post where "c # s = t @ post" by (auto simp: prefix_def)
      then have "c # s = [] @ t @ post" by simp
      then show ?thesis by blast
    next
      case 2
      with Cons.IH obtain pre post where "s = pre @ t @ post" by blast
      then have "c # s = (c # pre) @ t @ post" by simp
      then show ?thesis by blast
    qed
  next
    assume "\<exists>pre post. c # s = pre @ t @ post"
    then obtain pre post where eq: "c # s = pre @ t @ post" by blast
    show "str_includes (c # s) t"
    proof (cases pre)
      case Nil
      with eq have "prefix t (c # s)" by (simp add: prefix_def)
      then show ?thesis by simp
    next
      case (Cons p pre')
      with eq have "s = pre' @ t @ post" by simp
      with Cons.IH have "str_includes s t" by blast
      then show ?thesis by simp
    qed
  qed
qed

lemma consistent_code_unit_compare: "consistent_comparator code_unit_compare"
  unfolding consistent_comparator_def code_unit_compare_def
  by (auto split: if_splits)

lemma consistent_example_runtime: "consistent_comparator (localeCompare example_runtime)"
  by (simp add: example_runtime_def consistent_code_unit_compare)

lemma code_unit_compare_less: "(code_unit_compare a b < 0) = (a < b)"
  by (simp add: code_unit_compare_def)

lemma code_unit_compare_eq: "(code_unit_compare a b = 0) = (a = b)"
  by (simp add: code_unit_compare_def)

lemma sort_sign_of_int: "sort_sign (Fin (of_int x)) \<le> 0 \<longleftrightarrow> x \<le> 0"
  by auto

subsection \<open>The sort: a permutation, ordered, stable\<close>

lemma mset_insert_sorted: "mset (insert_sorted cmp x ys) = add_mset x (mset ys)"
  by (induction ys) auto

lemma mset_array_sort: "mset (array_sort cmp xs) = mset xs"
  unfolding array_sort_def by (induction xs) (auto simp: mset_insert_sorted)

lemma set_array_sort: "set (array_sort cmp xs) = set xs"
  by (metis mset_array_sort set_mset_mset)

lemma length_array_sort: "length (array_sort cmp xs) = length xs"
  by (metis mset_array_sort size_mset)

lemma set_insert_sorted: "set (insert_sorted cmp x ys) = insert x (set ys)"
  by (metis mset_insert_sorted set_mset_add_mset_insert set_mset_mset)

lemma sorted_insert_sorted:
  assumes total: "\<forall>a\<in>insert x (set ys). \<forall>b\<in>insert x (set ys).
                    sort_sign (cmp a b) \<le> 0 \<or> sort_sign (cmp b a) \<le> 0"
      and trans: "\<forall>a\<in>insert x (set ys). \<forall>b\<in>insert x (set ys). \<forall>c\<in>insert x (set ys).
                    sort_sign (cmp a b) \<le> 0 \<longrightarrow> sort_sign (cmp b c) \<le> 0 \<longrightarrow>
                    sort_sign (cmp a c) \<le> 0"
      and sorted: "sorted_wrt (\<lambda>a b. sort_sign (cmp a b) \<le> 0) ys"
  shows "sorted_wrt (\<lambda>a b. sort_sign (cmp a b) \<le> 0) (insert_sorted cmp x ys)"
  using assms
proof (induction ys)
  case Nil
  show ?case by simp
next
  case (Cons y ys)
  from Cons.prems(3) have y_first: "\<forall>z\<in>set ys. sort_sign (cmp y z) \<le> 0"
    and tail: "sorted_wrt (\<lambda>a b. sort_sign (cmp a b) \<le> 0) ys"
    by simp_all
  show ?case
  proof (cases "sort_sign (cmp x y) \<le> 0")
    case True
    have "sort_sign (cmp x z) \<le> 0" if "z \<in> set ys" for z
    proof -
      from y_first that have "sort_sign (cmp y z) \<le> 0" by blast
      moreover have "x \<in> insert x (set (y # ys))" "y \<in> insert x (set (y # ys))"
        "z \<in> insert x (set (y # ys))" using that by simp_all
      ultimately show ?thesis using True Cons.prems(2) by blast
    qed
    with True Cons.prems(3) show ?thesis by simp
  next
    case False
    have "x \<in> insert x (set (y # ys))" "y \<in> insert x (set (y # ys))" by simp_all
    with False Cons.prems(1) have yx: "sort_sign (cmp y x) \<le> 0" by blast
    have sub: "insert x (set ys) \<subseteq> insert x (set (y # ys))" by auto
    have "sorted_wrt (\<lambda>a b. sort_sign (cmp a b) \<le> 0) (insert_sorted cmp x ys)"
    proof (rule Cons.IH[OF _ _ tail])
      show "\<forall>a\<in>insert x (set ys). \<forall>b\<in>insert x (set ys).
              sort_sign (cmp a b) \<le> 0 \<or> sort_sign (cmp b a) \<le> 0"
        using Cons.prems(1) sub by blast
      show "\<forall>a\<in>insert x (set ys). \<forall>b\<in>insert x (set ys). \<forall>c\<in>insert x (set ys).
              sort_sign (cmp a b) \<le> 0 \<longrightarrow> sort_sign (cmp b c) \<le> 0 \<longrightarrow>
              sort_sign (cmp a c) \<le> 0"
        using Cons.prems(2) sub by (meson subsetD)
    qed
    moreover have "\<forall>z\<in>set (insert_sorted cmp x ys). sort_sign (cmp y z) \<le> 0"
      using yx y_first by (simp add: set_insert_sorted)
    ultimately show ?thesis using False by simp
  qed
qed

lemma sorted_array_sort:
  assumes total: "\<forall>a\<in>set xs. \<forall>b\<in>set xs.
                    sort_sign (cmp a b) \<le> 0 \<or> sort_sign (cmp b a) \<le> 0"
      and trans: "\<forall>a\<in>set xs. \<forall>b\<in>set xs. \<forall>c\<in>set xs.
                    sort_sign (cmp a b) \<le> 0 \<longrightarrow> sort_sign (cmp b c) \<le> 0 \<longrightarrow>
                    sort_sign (cmp a c) \<le> 0"
  shows "sorted_wrt (\<lambda>a b. sort_sign (cmp a b) \<le> 0) (array_sort cmp xs)"
  using assms
proof (induction xs)
  case Nil
  show ?case by (simp add: array_sort_def)
next
  case (Cons x xs)
  have sub: "set xs \<subseteq> set (x # xs)" by auto
  have IH: "sorted_wrt (\<lambda>a b. sort_sign (cmp a b) \<le> 0) (array_sort cmp xs)"
  proof (rule Cons.IH)
    show "\<forall>a\<in>set xs. \<forall>b\<in>set xs. sort_sign (cmp a b) \<le> 0 \<or> sort_sign (cmp b a) \<le> 0"
      using Cons.prems(1) sub by blast
    show "\<forall>a\<in>set xs. \<forall>b\<in>set xs. \<forall>c\<in>set xs.
            sort_sign (cmp a b) \<le> 0 \<longrightarrow> sort_sign (cmp b c) \<le> 0 \<longrightarrow> sort_sign (cmp a c) \<le> 0"
      using Cons.prems(2) sub by (meson subsetD)
  qed
  have eq: "insert x (set (array_sort cmp xs)) = set (x # xs)"
    by (simp add: set_array_sort)
  have "sorted_wrt (\<lambda>a b. sort_sign (cmp a b) \<le> 0) (insert_sorted cmp x (array_sort cmp xs))"
    by (rule sorted_insert_sorted[OF _ _ IH]) (use Cons.prems eq in presburger)+
  then show ?case by (simp add: array_sort_def)
qed

lemma filter_insert_sorted_in:
  "P x \<Longrightarrow> (\<And>y. y \<in> set ys \<Longrightarrow> P y \<Longrightarrow> sort_sign (cmp x y) \<le> 0) \<Longrightarrow>
     filter P (insert_sorted cmp x ys) = x # filter P ys"
  by (induction ys) auto

lemma filter_insert_sorted_out:
  "\<not> P x \<Longrightarrow> filter P (insert_sorted cmp x ys) = filter P ys"
  by (induction ys) auto

lemma array_sort_stable:
  assumes "\<And>x y. x \<in> set xs \<Longrightarrow> y \<in> set xs \<Longrightarrow> P x \<Longrightarrow> P y \<Longrightarrow> sort_sign (cmp x y) \<le> 0"
  shows "filter P (array_sort cmp xs) = filter P xs"
  using assms
proof (induction xs)
  case Nil
  show ?case by (simp add: array_sort_def)
next
  case (Cons x xs)
  have IH: "filter P (array_sort cmp xs) = filter P xs"
    by (rule Cons.IH) (use Cons.prems in auto)
  have unfold: "array_sort cmp (x # xs) = insert_sorted cmp x (array_sort cmp xs)"
    by (simp add: array_sort_def)
  show ?case
  proof (cases "P x")
    case True
    have "sort_sign (cmp x y) \<le> 0" if "y \<in> set (array_sort cmp xs)" "P y" for y
      using that True Cons.prems[of x y] by (simp add: set_array_sort)
    then have "filter P (insert_sorted cmp x (array_sort cmp xs)) = x # filter P (array_sort cmp xs)"
      using True filter_insert_sorted_in[where P = P and x = x and cmp = cmp
          and ys = "array_sort cmp xs"] by blast
    with IH True unfold show ?thesis by simp
  next
    case False
    with IH unfold show ?thesis by (simp add: filter_insert_sorted_out)
  qed
qed

text \<open>
  A list that is a permutation of the input, ordered by the comparator, and keeps the
  input order among elements the comparator ranks equal, is the list \<^const>\<open>array_sort\<close>
  returns: whatever stable algorithm the engine runs, this is its result.
\<close>

lemma stable_sorted_unique:
  assumes total: "\<forall>a\<in>set ys. \<forall>b\<in>set ys. sort_sign (cmp a b) \<le> 0 \<or> sort_sign (cmp b a) \<le> 0"
      and perm: "mset ys = mset zs"
      and sorted_ys: "sorted_wrt (\<lambda>a b. sort_sign (cmp a b) \<le> 0) ys"
      and sorted_zs: "sorted_wrt (\<lambda>a b. sort_sign (cmp a b) \<le> 0) zs"
      and stable: "\<forall>k\<in>set ys.
          filter (\<lambda>x. sort_sign (cmp k x) \<le> 0 \<and> sort_sign (cmp x k) \<le> 0) ys =
          filter (\<lambda>x. sort_sign (cmp k x) \<le> 0 \<and> sort_sign (cmp x k) \<le> 0) zs"
  shows "ys = zs"
  using assms
proof (induction ys arbitrary: zs)
  case Nil
  from Nil.prems(2) show ?case by simp
next
  case (Cons y ys)
  from Cons.prems(2) have "zs \<noteq> []" by auto
  then obtain z zs' where zs: "zs = z # zs'" by (cases zs) auto
  have sets: "set (y # ys) = set (z # zs')"
    using Cons.prems(2) zs by (metis set_mset_mset)
  have refl: "sort_sign (cmp y y) \<le> 0" using Cons.prems(1) by auto
  have yz: "sort_sign (cmp y z) \<le> 0"
  proof (cases "z = y")
    case True
    with refl show ?thesis by simp
  next
    case False
    with sets have "z \<in> set ys" by auto
    with Cons.prems(3) show ?thesis by simp
  qed
  have zy: "sort_sign (cmp z y) \<le> 0"
  proof (cases "z = y")
    case True
    with refl show ?thesis by simp
  next
    case False
    with sets have "y \<in> set zs'" by auto
    with Cons.prems(4) zs show ?thesis by simp
  qed
  have "filter (\<lambda>x. sort_sign (cmp y x) \<le> 0 \<and> sort_sign (cmp x y) \<le> 0) (y # ys) =
        filter (\<lambda>x. sort_sign (cmp y x) \<le> 0 \<and> sort_sign (cmp x y) \<le> 0) (z # zs')"
    using Cons.prems(5) zs by simp
  with refl yz zy have hd_eq: "y = z" by simp
  have "ys = zs'"
  proof (rule Cons.IH)
    show "\<forall>a\<in>set ys. \<forall>b\<in>set ys. sort_sign (cmp a b) \<le> 0 \<or> sort_sign (cmp b a) \<le> 0"
      using Cons.prems(1) by simp
    show "mset ys = mset zs'" using Cons.prems(2) zs hd_eq by simp
    show "sorted_wrt (\<lambda>a b. sort_sign (cmp a b) \<le> 0) ys" using Cons.prems(3) by simp
    show "sorted_wrt (\<lambda>a b. sort_sign (cmp a b) \<le> 0) zs'" using Cons.prems(4) zs by simp
    show "\<forall>k\<in>set ys.
          filter (\<lambda>x. sort_sign (cmp k x) \<le> 0 \<and> sort_sign (cmp x k) \<le> 0) ys =
          filter (\<lambda>x. sort_sign (cmp k x) \<le> 0 \<and> sort_sign (cmp x k) \<le> 0) zs'"
    proof
      fix k assume "k \<in> set ys"
      then have "filter (\<lambda>x. sort_sign (cmp k x) \<le> 0 \<and> sort_sign (cmp x k) \<le> 0) (y # ys) =
          filter (\<lambda>x. sort_sign (cmp k x) \<le> 0 \<and> sort_sign (cmp x k) \<le> 0) (y # zs')"
        using Cons.prems(5) zs hd_eq by simp
      then show "filter (\<lambda>x. sort_sign (cmp k x) \<le> 0 \<and> sort_sign (cmp x k) \<le> 0) ys =
          filter (\<lambda>x. sort_sign (cmp k x) \<le> 0 \<and> sort_sign (cmp x k) \<le> 0) zs'"
        by (simp split: if_splits)
    qed
  qed
  with hd_eq zs show ?case by simp
qed

lemma array_sort_unique:
  assumes total: "\<forall>a\<in>set xs. \<forall>b\<in>set xs. sort_sign (cmp a b) \<le> 0 \<or> sort_sign (cmp b a) \<le> 0"
      and trans: "\<forall>a\<in>set xs. \<forall>b\<in>set xs. \<forall>c\<in>set xs.
                    sort_sign (cmp a b) \<le> 0 \<longrightarrow> sort_sign (cmp b c) \<le> 0 \<longrightarrow>
                    sort_sign (cmp a c) \<le> 0"
      and perm: "mset ys = mset xs"
      and sorted: "sorted_wrt (\<lambda>a b. sort_sign (cmp a b) \<le> 0) ys"
      and stable: "\<forall>k\<in>set xs.
          filter (\<lambda>x. sort_sign (cmp k x) \<le> 0 \<and> sort_sign (cmp x k) \<le> 0) ys =
          filter (\<lambda>x. sort_sign (cmp k x) \<le> 0 \<and> sort_sign (cmp x k) \<le> 0) xs"
  shows "ys = array_sort cmp xs"
proof (rule stable_sorted_unique[where cmp = cmp])
  have set_eq: "set ys = set xs" using perm by (metis set_mset_mset)
  show "\<forall>a\<in>set ys. \<forall>b\<in>set ys. sort_sign (cmp a b) \<le> 0 \<or> sort_sign (cmp b a) \<le> 0"
    unfolding set_eq by (rule total)
  show "mset ys = mset (array_sort cmp xs)" by (simp add: perm mset_array_sort)
  show "sorted_wrt (\<lambda>a b. sort_sign (cmp a b) \<le> 0) ys" by (rule sorted)
  show "sorted_wrt (\<lambda>a b. sort_sign (cmp a b) \<le> 0) (array_sort cmp xs)"
    by (rule sorted_array_sort[OF total trans])
  show "\<forall>k\<in>set ys.
          filter (\<lambda>x. sort_sign (cmp k x) \<le> 0 \<and> sort_sign (cmp x k) \<le> 0) ys =
          filter (\<lambda>x. sort_sign (cmp k x) \<le> 0 \<and> sort_sign (cmp x k) \<le> 0) (array_sort cmp xs)"
    unfolding set_eq
  proof
    fix k assume k: "k \<in> set xs"
    have "filter (\<lambda>x. sort_sign (cmp k x) \<le> 0 \<and> sort_sign (cmp x k) \<le> 0) (array_sort cmp xs) =
          filter (\<lambda>x. sort_sign (cmp k x) \<le> 0 \<and> sort_sign (cmp x k) \<le> 0) xs"
    proof (rule array_sort_stable)
      fix x y
      assume "x \<in> set xs" "y \<in> set xs"
        "sort_sign (cmp k x) \<le> 0 \<and> sort_sign (cmp x k) \<le> 0"
        "sort_sign (cmp k y) \<le> 0 \<and> sort_sign (cmp y k) \<le> 0"
      with k trans show "sort_sign (cmp x y) \<le> 0" by blast
    qed
    with stable k show "filter (\<lambda>x. sort_sign (cmp k x) \<le> 0 \<and> sort_sign (cmp x k) \<le> 0) ys =
          filter (\<lambda>x. sort_sign (cmp k x) \<le> 0 \<and> sort_sign (cmp x k) \<le> 0) (array_sort cmp xs)"
      by simp
  qed
qed

lemma consistent_onI:
  assumes "\<And>a b. a \<in> set xs \<Longrightarrow> b \<in> set xs \<Longrightarrow>
             sort_sign (cmp a b) \<le> 0 \<or> sort_sign (cmp b a) \<le> 0"
      and "\<And>a b c. a \<in> set xs \<Longrightarrow> b \<in> set xs \<Longrightarrow> c \<in> set xs \<Longrightarrow>
             sort_sign (cmp a b) \<le> 0 \<Longrightarrow> sort_sign (cmp b c) \<le> 0 \<Longrightarrow> sort_sign (cmp a c) \<le> 0"
  shows "consistent_on cmp xs"
  unfolding consistent_on_def using assms by blast



section \<open>Filtering: the retained records\<close>

lemma step_tag_filter:
  "activeTagFilter st \<noteq> Some [] \<Longrightarrow> activeTagFilter (step st a) \<noteq> Some []"
  by (cases a) (auto simp: handleRemoveTag_def)

lemma run_tag_filter:
  "activeTagFilter st \<noteq> Some [] \<Longrightarrow> activeTagFilter (run st acts) \<noteq> Some []"
  unfolding run_def by (induction acts arbitrary: st) (auto simp: step_tag_filter)

lemma filterReports_filter:
  assumes "tag \<noteq> Some []"
  shows "filterReports rt rs term tag status =
     filter (\<lambda>r.
       (term = [] \<or>
          (\<exists>pre post. toLowerCase rt (name r) = pre @ toLowerCase rt term @ post)) \<and>
       (tag = None \<or> the tag \<in> set (tags r)) \<and>
       (status = None \<or> status = Some (isActive r))) rs"
  unfolding filterReports_def Let_def str_includes_iff
  using assms by (intro filter_cong) (auto split: option.splits)

text \<open>
  C5. For every record list, search term and status filter, and for every tag filter
  that is unset or a string that is not empty, \<^verbatim>\<open>filterReports\<close> keeps exactly the
  records for which the search term is empty or occurs in the lower-cased name after
  lower-casing, the tag filter is unset or one of the record's tags, and the status
  filter is unset or equal to the record's \<open>isActive\<close>. The result is a subsequence of
  the input, so the input order is preserved; the function returns a new list, its
  argument being a value that nothing changes. The component never holds the empty string
  as tag filter: the state starts without one, the select turns its empty option into
  \<^verbatim>\<open>null\<close>, and removing a tag clears the filter or leaves it. So the equation holds for
  the tag filter of every state the handlers lead to.
\<close>

theorem C5_filterReports_retains:
  "(tag \<noteq> Some [] \<longrightarrow>
      filterReports rt rs term tag status =
        filter (\<lambda>r.
          (term = [] \<or>
             (\<exists>pre post. toLowerCase rt (name r) = pre @ toLowerCase rt term @ post)) \<and>
          (tag = None \<or> the tag \<in> set (tags r)) \<and>
          (status = None \<or> status = Some (isActive r))) rs) \<and>
   subseq (filterReports rt rs term tag status) rs \<and>
   activeTagFilter (run (initial held) acts) \<noteq> Some [] \<and>
   filterReports rt rs term (activeTagFilter (run (initial held) acts)) status =
     filter (\<lambda>r.
       (term = [] \<or>
          (\<exists>pre post. toLowerCase rt (name r) = pre @ toLowerCase rt term @ post)) \<and>
       (activeTagFilter (run (initial held) acts) = None \<or>
          the (activeTagFilter (run (initial held) acts)) \<in> set (tags r)) \<and>
       (status = None \<or> status = Some (isActive r))) rs"
proof (intro conjI impI)
  assume "tag \<noteq> Some []"
  then show "filterReports rt rs term tag status =
        filter (\<lambda>r.
          (term = [] \<or>
             (\<exists>pre post. toLowerCase rt (name r) = pre @ toLowerCase rt term @ post)) \<and>
          (tag = None \<or> the tag \<in> set (tags r)) \<and>
          (status = None \<or> status = Some (isActive r))) rs"
    by (rule filterReports_filter)
next
  show "subseq (filterReports rt rs term tag status) rs"
    unfolding filterReports_def by simp
next
  show never: "activeTagFilter (run (initial held) acts) \<noteq> Some []"
    by (rule run_tag_filter) (simp add: initial_def)
  then show "filterReports rt rs term (activeTagFilter (run (initial held) acts)) status =
     filter (\<lambda>r.
       (term = [] \<or>
          (\<exists>pre post. toLowerCase rt (name r) = pre @ toLowerCase rt term @ post)) \<and>
       (activeTagFilter (run (initial held) acts) = None \<or>
          the (activeTagFilter (run (initial held) acts)) \<in> set (tags r)) \<and>
       (status = None \<or> status = Some (isActive r))) rs"
    by (rule filterReports_filter)
qed

text \<open>
  On the example records, the term \<open>b\<close>, the tag \<open>x\<close> and the status active keep B
  alone; and after choosing tags and removing the one filtered on, no tag filter is set.
\<close>

theorem C5_filterReports_witness:
  "filterReports example_runtime example_reports ''b'' (Some ''x'') (Some True) =
     [mk_report ''1'' ''B'' True [''x''] ''2024-01-02''] \<and>
   filterReports example_runtime example_reports ''b'' (Some ''x'') (Some True) =
     filter (\<lambda>r.
       (''b'' = [] \<or>
          (\<exists>pre post. toLowerCase example_runtime (name r) =
             pre @ toLowerCase example_runtime ''b'' @ post)) \<and>
       (Some ''x'' = None \<or> the (Some ''x'') \<in> set (tags r)) \<and>
       (Some True = None \<or> Some True = Some (isActive r))) example_reports \<and>
   subseq (filterReports example_runtime example_reports ''b'' (Some ''x'') (Some True))
     example_reports \<and>
   activeTagFilter (run (initial example_reports)
     [SelectTag ''x'', SelectTag [], SelectTag ''y'', RemoveTag ''3'' ''y'']) = None"
proof -
  note c5 = C5_filterReports_retains[of "Some ''x''" example_runtime example_reports "''b''"
      "Some True" example_reports "[]"]
  have set_tag: "Some ''x'' \<noteq> Some []" by simp
  have kept: "filterReports example_runtime example_reports ''b'' (Some ''x'') (Some True) =
     [mk_report ''1'' ''B'' True [''x''] ''2024-01-02'']"
    by (simp add: filterReports_def example_reports_def mk_report_def example_runtime_def
        lower_char_def)
  from c5 set_tag have spec: "filterReports example_runtime example_reports ''b'' (Some ''x'') (Some True) =
     filter (\<lambda>r.
       (''b'' = [] \<or>
          (\<exists>pre post. toLowerCase example_runtime (name r) =
             pre @ toLowerCase example_runtime ''b'' @ post)) \<and>
       (Some ''x'' = None \<or> the (Some ''x'') \<in> set (tags r)) \<and>
       (Some True = None \<or> Some True = Some (isActive r))) example_reports"
    by blast
  from c5 have sub: "subseq (filterReports example_runtime example_reports ''b'' (Some ''x'')
      (Some True)) example_reports" by blast
  have cleared: "activeTagFilter (run (initial example_reports)
     [SelectTag ''x'', SelectTag [], SelectTag ''y'', RemoveTag ''3'' ''y'']) = None"
    by (simp add: run_def initial_def handleRemoveTag_def)
  from kept spec sub cleared show ?thesis by (intro conjI)
qed

section \<open>Sorting: neutral state, order, stability\<close>

lemma compareReports_le:
  assumes "f = Date \<longrightarrow> getTime rt (date a) \<noteq> None \<and> getTime rt (date b) \<noteq> None"
  shows "sort_sign (compareReports rt f d a b) \<le> 0 \<longleftrightarrow> spec_before rt f d a b"
proof (cases f)
  case Name
  then show ?thesis
    by (simp add: compareReports_def spec_before_def)
next
  case Date
  with assms obtain ta tb where "getTime rt (date a) = Some ta" "getTime rt (date b) = Some tb"
    by auto
  with Date show ?thesis
    by (simp add: compareReports_def spec_before_def date_time_def)
next
  case Status
  then show ?thesis
    by (simp add: compareReports_def spec_before_def Number_of_bool_def)
qed

lemma spec_before_total:
  assumes "f = Name \<longrightarrow> consistent_comparator (localeCompare rt)"
  shows "spec_before rt f d a b \<or> spec_before rt f d b a"
proof (cases f)
  case Name
  with assms have "localeCompare rt x y \<le> 0 \<or> localeCompare rt y x \<le> 0" for x y
    unfolding consistent_comparator_def by (metis not_less order_less_imp_le)
  with Name show ?thesis by (auto simp: spec_before_def)
next
  case Date
  then show ?thesis by (auto simp: spec_before_def)
next
  case Status
  then show ?thesis by (auto simp: spec_before_def)
qed

lemma spec_before_trans:
  assumes "f = Name \<longrightarrow> consistent_comparator (localeCompare rt)"
      and "spec_before rt f d a b" and "spec_before rt f d b c"
  shows "spec_before rt f d a c"
proof (cases f)
  case Name
  with assms(1) have tr: "localeCompare rt x y \<le> 0 \<Longrightarrow> localeCompare rt y z \<le> 0 \<Longrightarrow>
      localeCompare rt x z \<le> 0" for x y z
    unfolding consistent_comparator_def by blast
  from Name assms(2,3) show ?thesis
    by (auto simp: spec_before_def intro: tr split: if_splits)
next
  case Date
  with assms(2,3) show ?thesis by (auto simp: spec_before_def split: if_splits)
next
  case Status
  with assms(2,3) show ?thesis by (auto simp: spec_before_def split: if_splits)
qed

lemma spec_same_key_before:
  assumes "f = Name \<longrightarrow> consistent_comparator (localeCompare rt)"
      and "spec_same_key rt f k x" and "spec_same_key rt f k y"
  shows "spec_before rt f d x y"
proof (cases f)
  case Name
  with assms(2,3) have kx: "localeCompare rt (name k) (name x) = 0"
    and ky: "localeCompare rt (name k) (name y) = 0" by (simp_all add: spec_same_key_def)
  from Name assms(1) have lc: "consistent_comparator (localeCompare rt)" by simp
  from lc have sym: "localeCompare rt u v = 0 \<Longrightarrow> localeCompare rt v u = 0" for u v
    unfolding consistent_comparator_def by (metis linorder_neqE_linordered_idom order_less_irrefl)
  from lc have tr: "localeCompare rt u v \<le> 0 \<Longrightarrow> localeCompare rt v w \<le> 0 \<Longrightarrow>
      localeCompare rt u w \<le> 0" for u v w
    unfolding consistent_comparator_def by blast
  have "localeCompare rt (name x) (name y) \<le> 0"
    using tr[of "name x" "name k" "name y"] sym[OF kx] ky by simp
  moreover have "localeCompare rt (name y) (name x) \<le> 0"
    using tr[of "name y" "name k" "name x"] sym[OF ky] kx by simp
  ultimately show ?thesis using Name by (simp add: spec_before_def)
next
  case Date
  with assms(2,3) show ?thesis by (simp add: spec_before_def spec_same_key_def)
next
  case Status
  with assms(2,3) show ?thesis by (simp add: spec_before_def spec_same_key_def)
qed

text \<open>
  C6. For every record list: when the field or the direction is unset, \<^verbatim>\<open>sortReports\<close>
  returns its input; in every case the result is a permutation of the input; and when
  both are set, the result is ordered by the key of the field (names by
  \<^verbatim>\<open>localeCompare\<close>, dates by timestamp, status with inactive before active) in the
  direction asked, and records with equal keys keep their relative input order. The
  order by name rests on \<^verbatim>\<open>localeCompare\<close> being a consistent comparator, the order by
  date on every date of the list being valid; the order by status rests on nothing.
\<close>

theorem C6_sortReports_stable:
  "((field st = None \<or> direction st = None) \<longrightarrow> sortReports rt rs st = rs) \<and>
   mset (sortReports rt rs st) = mset rs \<and>
   (\<forall>f d. field st = Some f \<and> direction st = Some d \<and>
          (f = Name \<longrightarrow> consistent_comparator (localeCompare rt)) \<and>
          (f = Date \<longrightarrow> (\<forall>r\<in>set rs. getTime rt (date r) \<noteq> None)) \<longrightarrow>
      sorted_wrt (spec_before rt f d) (sortReports rt rs st) \<and>
      (\<forall>k. filter (spec_same_key rt f k) (sortReports rt rs st) =
           filter (spec_same_key rt f k) rs))"
proof (intro conjI allI impI)
  assume "field st = None \<or> direction st = None"
  then show "sortReports rt rs st = rs"
    by (auto simp: sortReports_def split: option.splits)
next
  show "mset (sortReports rt rs st) = mset rs"
    by (simp add: sortReports_def mset_array_sort split: option.splits)
next
  fix f d
  assume h: "field st = Some f \<and> direction st = Some d \<and>
          (f = Name \<longrightarrow> consistent_comparator (localeCompare rt)) \<and>
          (f = Date \<longrightarrow> (\<forall>r\<in>set rs. getTime rt (date r) \<noteq> None))"
  then have eq: "sortReports rt rs st = array_sort (compareReports rt f d) rs"
    by (simp add: sortReports_def)
  from h have lc: "f = Name \<longrightarrow> consistent_comparator (localeCompare rt)" by simp
  have le: "sort_sign (compareReports rt f d a b) \<le> 0 \<longleftrightarrow> spec_before rt f d a b"
    if "a \<in> set rs" "b \<in> set rs" for a b
    using that h by (intro compareReports_le) auto
  have "sorted_wrt (\<lambda>a b. sort_sign (compareReports rt f d a b) \<le> 0)
          (array_sort (compareReports rt f d) rs)"
  proof (rule sorted_array_sort)
    show "\<forall>a\<in>set rs. \<forall>b\<in>set rs. sort_sign (compareReports rt f d a b) \<le> 0 \<or>
            sort_sign (compareReports rt f d b a) \<le> 0"
      using le spec_before_total[OF lc] by blast
    show "\<forall>a\<in>set rs. \<forall>b\<in>set rs. \<forall>c\<in>set rs.
            sort_sign (compareReports rt f d a b) \<le> 0 \<longrightarrow>
            sort_sign (compareReports rt f d b c) \<le> 0 \<longrightarrow>
            sort_sign (compareReports rt f d a c) \<le> 0"
      using le spec_before_trans[OF lc] by blast
  qed
  then show "sorted_wrt (spec_before rt f d) (sortReports rt rs st)"
    unfolding eq
    by (rule sorted_wrt_mono_rel[rotated]) (use le in \<open>simp add: set_array_sort\<close>)
  fix k
  show "filter (spec_same_key rt f k) (sortReports rt rs st) = filter (spec_same_key rt f k) rs"
    unfolding eq
  proof (rule array_sort_stable)
    fix x y
    assume "x \<in> set rs" "y \<in> set rs" "spec_same_key rt f k x" "spec_same_key rt f k y"
    then show "sort_sign (compareReports rt f d x y) \<le> 0"
      using le spec_same_key_before[OF lc] by blast
  qed
qed

text \<open>
  The example records with the date of C made invalid, by status, ascending: the
  inactive A first, then B and C in their input order. The example records by date,
  descending, keep their order (B and A share the day), and by name, ascending, come out
  as A, B, C.
\<close>

theorem C6_sortReports_witness:
  "mset (sortReports example_runtime
      [mk_report ''1'' ''B'' True [''x''] ''2024-01-02'',
       mk_report ''2'' ''A'' False [] ''2024-01-02T10:30:00Z'',
       mk_report ''3'' ''C'' True [''y''] ''no date'']
      \<lparr>field = Some Status, direction = Some Asc\<rparr>) =
     mset [mk_report ''1'' ''B'' True [''x''] ''2024-01-02'',
       mk_report ''2'' ''A'' False [] ''2024-01-02T10:30:00Z'',
       mk_report ''3'' ''C'' True [''y''] ''no date''] \<and>
   sorted_wrt (spec_before example_runtime Status Asc)
     (sortReports example_runtime
      [mk_report ''1'' ''B'' True [''x''] ''2024-01-02'',
       mk_report ''2'' ''A'' False [] ''2024-01-02T10:30:00Z'',
       mk_report ''3'' ''C'' True [''y''] ''no date'']
      \<lparr>field = Some Status, direction = Some Asc\<rparr>) \<and>
   sortReports example_runtime
      [mk_report ''1'' ''B'' True [''x''] ''2024-01-02'',
       mk_report ''2'' ''A'' False [] ''2024-01-02T10:30:00Z'',
       mk_report ''3'' ''C'' True [''y''] ''no date'']
      \<lparr>field = Some Status, direction = Some Asc\<rparr> =
     [mk_report ''2'' ''A'' False [] ''2024-01-02T10:30:00Z'',
      mk_report ''1'' ''B'' True [''x''] ''2024-01-02'',
      mk_report ''3'' ''C'' True [''y''] ''no date''] \<and>
   sortReports example_runtime example_reports \<lparr>field = Some Date, direction = Some Desc\<rparr> =
     [mk_report ''1'' ''B'' True [''x''] ''2024-01-02'',
      mk_report ''2'' ''A'' False [] ''2024-01-02T10:30:00Z'',
      mk_report ''3'' ''C'' True [''y''] ''2024-01-01''] \<and>
   sorted_wrt (spec_before example_runtime Date Desc)
     (sortReports example_runtime example_reports \<lparr>field = Some Date, direction = Some Desc\<rparr>) \<and>
   sortReports example_runtime example_reports \<lparr>field = Some Name, direction = Some Asc\<rparr> =
     [mk_report ''2'' ''A'' False [] ''2024-01-02T10:30:00Z'',
      mk_report ''1'' ''B'' True [''x''] ''2024-01-02'',
      mk_report ''3'' ''C'' True [''y''] ''2024-01-01''] \<and>
   sorted_wrt (spec_before example_runtime Name Asc)
     (sortReports example_runtime example_reports \<lparr>field = Some Name, direction = Some Asc\<rparr>)"
proof -
  let ?rs = "[mk_report ''1'' ''B'' True [''x''] ''2024-01-02'',
       mk_report ''2'' ''A'' False [] ''2024-01-02T10:30:00Z'',
       mk_report ''3'' ''C'' True [''y''] ''no date'']"
  let ?status = "\<lparr>field = Some Status, direction = Some Asc\<rparr>"
  let ?date = "\<lparr>field = Some Date, direction = Some Desc\<rparr>"
  let ?name = "\<lparr>field = Some Name, direction = Some Asc\<rparr>"
  have valid: "\<forall>r\<in>set example_reports. getTime example_runtime (date r) \<noteq> None"
    by (simp add: example_reports_def mk_report_def example_runtime_def example_getTime_def
        iso_day_def is_digit_def)
  have s_cond: "field ?status = Some Status \<and> direction ?status = Some Asc \<and>
      (Status = Name \<longrightarrow> consistent_comparator (localeCompare example_runtime)) \<and>
      (Status = Date \<longrightarrow> (\<forall>r\<in>set ?rs. getTime example_runtime (date r) \<noteq> None))"
    by simp
  have d_cond: "field ?date = Some Date \<and> direction ?date = Some Desc \<and>
      (Date = Name \<longrightarrow> consistent_comparator (localeCompare example_runtime)) \<and>
      (Date = Date \<longrightarrow> (\<forall>r\<in>set example_reports. getTime example_runtime (date r) \<noteq> None))"
    using valid by simp
  have n_cond: "field ?name = Some Name \<and> direction ?name = Some Asc \<and>
      (Name = Name \<longrightarrow> consistent_comparator (localeCompare example_runtime)) \<and>
      (Name = Date \<longrightarrow> (\<forall>r\<in>set example_reports. getTime example_runtime (date r) \<noteq> None))"
    using consistent_example_runtime by simp
  from C6_sortReports_stable[of ?status example_runtime ?rs] s_cond
  have s1: "mset (sortReports example_runtime ?rs ?status) = mset ?rs"
    and s2: "sorted_wrt (spec_before example_runtime Status Asc)
      (sortReports example_runtime ?rs ?status)" by blast+
  from C6_sortReports_stable[of ?date example_runtime example_reports] d_cond
  have d2: "sorted_wrt (spec_before example_runtime Date Desc)
      (sortReports example_runtime example_reports ?date)" by blast
  from C6_sortReports_stable[of ?name example_runtime example_reports] n_cond
  have n2: "sorted_wrt (spec_before example_runtime Name Asc)
      (sortReports example_runtime example_reports ?name)" by blast
  have s3: "sortReports example_runtime ?rs ?status =
     [mk_report ''2'' ''A'' False [] ''2024-01-02T10:30:00Z'',
      mk_report ''1'' ''B'' True [''x''] ''2024-01-02'',
      mk_report ''3'' ''C'' True [''y''] ''no date'']"
    by (simp add: sortReports_def array_sort_def compareReports_def mk_report_def
        Number_of_bool_def)
  have d3: "sortReports example_runtime example_reports ?date =
     [mk_report ''1'' ''B'' True [''x''] ''2024-01-02'',
      mk_report ''2'' ''A'' False [] ''2024-01-02T10:30:00Z'',
      mk_report ''3'' ''C'' True [''y''] ''2024-01-01'']"
    by (simp add: sortReports_def array_sort_def compareReports_def example_reports_def
        mk_report_def date_time_def example_runtime_def example_getTime_def iso_day_def
        is_digit_def digits_value_def)
  have n3: "sortReports example_runtime example_reports ?name =
     [mk_report ''2'' ''A'' False [] ''2024-01-02T10:30:00Z'',
      mk_report ''1'' ''B'' True [''x''] ''2024-01-02'',
      mk_report ''3'' ''C'' True [''y''] ''2024-01-01'']"
    by (simp add: sortReports_def array_sort_def compareReports_def example_reports_def
        mk_report_def example_runtime_def code_unit_compare_def)
  from s1 s2 s3 d3 d2 n3 n2 show ?thesis by (intro conjI)
qed

section \<open>Grouping by date: a partition, in order, most recent first\<close>

lemma split_on_nonempty: "split_on sep s \<noteq> []"
  by (induction s) (auto split: list.splits)

lemma hd_split_on: "hd (split_on sep s) = takeWhile (\<lambda>c. c \<noteq> sep) s"
proof (induction s)
  case Nil
  show ?case by simp
next
  case (Cons c s)
  then show ?case
    using split_on_nonempty[of sep s] by (auto split: list.splits)
qed

lemma dateKey_takeWhile: "dateKey r = takeWhile (\<lambda>c. c \<noteq> CHR ''T'') (date r)"
  by (simp add: dateKey_def hd_split_on)

lemma map_of_push:
  "map_of (map (\<lambda>(k, v). if k = key then (k, v @ [r]) else (k, v)) acc) k' =
     map_option (\<lambda>v. if k' = key then v @ [r] else v) (map_of acc k')"
  by (induction acc) auto

lemma fst_push: "map fst (map (\<lambda>(k, v). if k = key then (k, v @ [r]) else (k, v)) acc) = map fst acc"
  by (induction acc) auto

lemma mset_concat_push:
  "distinct (map fst acc) \<Longrightarrow> map_of acc key = Some g \<Longrightarrow>
     mset (concat (map snd (map (\<lambda>(k, v). if k = key then (k, v @ [r]) else (k, v)) acc))) =
     add_mset r (mset (concat (map snd acc)))"
proof (induction acc)
  case Nil
  then show ?case by simp
next
  case (Cons p acc)
  obtain k v where p: "p = (k, v)" by (cases p)
  show ?case
  proof (cases "k = key")
    case True
    with Cons.prems p have "key \<notin> fst ` set acc" by auto
    then have "map (\<lambda>(k, v). if k = key then (k, v @ [r]) else (k, v)) acc = acc"
      by (induction acc) auto
    with True p show ?thesis by simp
  next
    case False
    with Cons p show ?thesis by simp
  qed
qed

lemma group_step_ok:
  assumes "dateKey r \<notin> set inherited_properties" and "group_inv acc"
  shows "\<exists>acc'. group_step acc r = Inr acc' \<and> group_inv acc' \<and>
           mset (concat (map snd acc')) = add_mset r (mset (concat (map snd acc))) \<and>
           (\<forall>k. group_of acc' k = group_of acc k @ (if dateKey r = k then [r] else []))"
proof (cases "map_of acc (dateKey r)")
  case None
  then have "dateKey r \<notin> fst ` set acc" by (simp add: map_of_eq_None_iff)
  with None assms show ?thesis
    by (auto simp: group_step_def group_inv_def group_of_def map_add_def split: option.splits)
next
  case (Some g)
  let ?acc' = "map (\<lambda>(k, v). if k = dateKey r then (k, v @ [r]) else (k, v)) acc"
  have step: "group_step acc r = Inr ?acc'"
    using Some by (simp add: group_step_def)
  have inv: "group_inv ?acc'"
    using assms(2) unfolding group_inv_def
    by (auto simp: fst_push list_all_iff simp del: map_map split: if_splits) blast+
  have ms: "mset (concat (map snd ?acc')) = add_mset r (mset (concat (map snd acc)))"
    using assms(2) Some by (intro mset_concat_push) (auto simp: group_inv_def)
  have "group_of ?acc' k = group_of acc k @ (if dateKey r = k then [r] else [])" for k
    using Some by (auto simp: group_of_def map_of_push split: option.splits)
  with step inv ms show ?thesis by blast
qed

lemma reduce_groups_ok:
  assumes "\<forall>r\<in>set rs. dateKey r \<notin> set inherited_properties" and "group_inv acc"
  shows "\<exists>acc'. reduce_groups acc rs = Inr acc' \<and> group_inv acc' \<and>
           mset (concat (map snd acc')) = mset (concat (map snd acc)) + mset rs \<and>
           (\<forall>k. group_of acc' k = group_of acc k @ filter (\<lambda>r. dateKey r = k) rs)"
  using assms
proof (induction rs arbitrary: acc)
  case Nil
  then show ?case by simp
next
  case (Cons r rs)
  from Cons.prems obtain acc1 where s1: "group_step acc r = Inr acc1" "group_inv acc1"
    "mset (concat (map snd acc1)) = add_mset r (mset (concat (map snd acc)))"
    "\<forall>k. group_of acc1 k = group_of acc k @ (if dateKey r = k then [r] else [])"
    using group_step_ok[of r acc] by auto
  from Cons.prems have "\<forall>r\<in>set rs. dateKey r \<notin> set inherited_properties" by simp
  from Cons.IH[OF this s1(2)] obtain acc' where s2: "reduce_groups acc1 rs = Inr acc'"
    "group_inv acc'" "mset (concat (map snd acc')) = mset (concat (map snd acc1)) + mset rs"
    "\<forall>k. group_of acc' k = group_of acc1 k @ filter (\<lambda>r. dateKey r = k) rs" by blast
  have "reduce_groups acc (r # rs) = Inr acc'" using s1(1) s2(1) by simp
  moreover have "mset (concat (map snd acc')) = mset (concat (map snd acc)) + mset (r # rs)"
    using s1(3) s2(3) by simp
  moreover have "\<forall>k. group_of acc' k = group_of acc k @ filter (\<lambda>r. dateKey r = k) (r # rs)"
    using s1(4) s2(4) by simp
  ultimately show ?case using s2(2) by blast
qed

lemma mset_object_entries: "mset (object_entries obj) = mset obj"
  by (simp add: object_entries_def)

lemma group_inv_member:
  assumes "group_inv acc" and "(k, g) \<in> set acc"
  shows "group_of acc k = g" and "g \<noteq> []"
  using assms by (auto simp: group_inv_def group_of_def list_all_iff)

lemma strictly_descending:
  assumes "sorted_wrt (\<lambda>p q. fst q \<le> fst p) gs" and "distinct (map fst gs)"
  shows "sorted_wrt (\<lambda>p q. fst q < fst p) (gs :: (string \<times> 'v) list)"
  using assms
proof (induction gs)
  case Nil
  show ?case by simp
next
  case (Cons p gs)
  have "fst q < fst p" if "q \<in> set gs" for q
  proof -
    from Cons.prems(1) that have "fst q \<le> fst p" by simp
    moreover have "fst p \<notin> fst ` set gs" using Cons.prems(2) by simp
    then have "fst q \<noteq> fst p" using that by (metis image_eqI)
    ultimately show ?thesis by simp
  qed
  moreover have "sorted_wrt (\<lambda>p q. fst q < fst p) gs"
    using Cons by simp
  ultimately show ?case by simp
qed

lemma mset_concat_cong:
  assumes "mset xs = mset ys"
  shows "mset (concat (map f xs)) = mset (concat (map f ys))"
proof -
  have "mset (concat (map f zs)) = sum_mset (image_mset (\<lambda>z. mset (f z)) (mset zs))" for zs
    by (induction zs) auto
  then show ?thesis using assms by simp
qed

lemma consistent_dictionary_compare: "consistent_comparator dictionary_compare"
  unfolding consistent_comparator_def dictionary_compare_def code_unit_compare_def
  by (auto split: if_splits)

text \<open>
  C7 (as amended). For every record list in which no date key is the name of a property
  that objects inherit, \<^verbatim>\<open>groupReportsByDate\<close> returns groups such that: the groups
  together hold exactly the records that pass the filter, each once; the keys are
  distinct; the group under a key is not empty and lists, in their original order, the
  filtered records whose date up to the first \<open>T\<close> is that key; and the keys descend
  under \<^verbatim>\<open>localeCompare\<close>. Where \<^verbatim>\<open>localeCompare\<close> orders the date keys of the list as
  the code units do, as it does for ISO-8601 dates, the keys descend strictly in
  lexicographic order.
\<close>

theorem C7_groupReportsByDate_partition:
  assumes own: "\<forall>r\<in>set rs. dateKey r \<notin> set inherited_properties"
      and lc: "consistent_comparator (localeCompare rt)"
  shows "\<exists>gs. groupReportsByDate rt rs term tag status = Inr gs \<and>
           mset (concat (map snd gs)) = mset (filterReports rt rs term tag status) \<and>
           distinct (map fst gs) \<and>
           (\<forall>(k, g)\<in>set gs. g \<noteq> [] \<and>
              g = filter (\<lambda>r. takeWhile (\<lambda>c. c \<noteq> CHR ''T'') (date r) = k)
                    (filterReports rt rs term tag status)) \<and>
           sorted_wrt (\<lambda>p q. localeCompare rt (fst q) (fst p) \<le> 0) gs \<and>
           ((\<forall>r\<in>set rs. \<forall>r'\<in>set rs.
               (localeCompare rt (dateKey r) (dateKey r') < 0) = (dateKey r < dateKey r') \<and>
               (localeCompare rt (dateKey r) (dateKey r') = 0) = (dateKey r = dateKey r')) \<longrightarrow>
            sorted_wrt (\<lambda>p q. fst q < fst p) gs)"
proof -
  define fs where "fs = filterReports rt rs term tag status"
  have sub: "set fs \<subseteq> set rs" by (auto simp: fs_def filterReports_def)
  have "group_inv []" by (simp add: group_inv_def)
  moreover have "\<forall>r\<in>set fs. dateKey r \<notin> set inherited_properties" using own sub by blast
  ultimately obtain acc where acc: "reduce_groups [] fs = Inr acc" "group_inv acc"
    "mset (concat (map snd acc)) = mset fs"
    "\<forall>k. group_of acc k = filter (\<lambda>r. dateKey r = k) fs"
    using reduce_groups_ok[of fs "[]"] by (auto simp: group_of_def)
  define cmp :: "string \<times> report list \<Rightarrow> string \<times> report list \<Rightarrow> number"
    where "cmp = (\<lambda>(dateA, _) (dateB, _). Fin (of_int (localeCompare rt dateB dateA)))"
  define gs where "gs = array_sort cmp (object_entries acc)"
  have res: "groupReportsByDate rt rs term tag status = Inr gs"
    using acc(1) by (simp add: groupReportsByDate_def fs_def[symmetric] gs_def cmp_def)
  have ms: "mset gs = mset acc"
    by (simp add: gs_def mset_array_sort mset_object_entries)
  then have set_gs: "set gs = set acc" by (metis set_mset_mset)
  have "mset (concat (map snd gs)) = mset (concat (map snd acc))"
    using ms by (rule mset_concat_cong)
  then have part: "mset (concat (map snd gs)) = mset fs" using acc(3) by simp
  have "mset (map fst gs) = mset (map fst acc)" using ms by (metis mset_map)
  moreover have "distinct (map fst acc)" using acc(2) by (simp add: group_inv_def)
  ultimately have dist: "distinct (map fst gs)" by (metis mset_eq_imp_distinct_iff)
  have groups: "\<forall>(k, g)\<in>set gs. g \<noteq> [] \<and>
      g = filter (\<lambda>r. takeWhile (\<lambda>c. c \<noteq> CHR ''T'') (date r) = k) fs"
  proof (intro ballI, clarify)
    fix k g assume "(k, g) \<in> set gs"
    with set_gs have mem: "(k, g) \<in> set acc" by simp
    from group_inv_member[OF acc(2) mem] acc(4)
    show "g \<noteq> [] \<and> g = filter (\<lambda>r. takeWhile (\<lambda>c. c \<noteq> CHR ''T'') (date r) = k) fs"
      by (simp add: dateKey_takeWhile)
  qed
  have key_in: "\<exists>r\<in>set rs. dateKey r = fst p" if "p \<in> set gs" for p
  proof -
    obtain k g where p: "p = (k, g)" by (cases p)
    with that set_gs have mem: "(k, g) \<in> set acc" by simp
    from group_inv_member[OF acc(2) mem] acc(4) have "filter (\<lambda>r. dateKey r = k) fs \<noteq> []"
      by simp
    then obtain r where "r \<in> set fs" "dateKey r = k"
      by (metis (mono_tags, lifting) filter_False)
    with sub p show ?thesis by auto
  qed
  have le: "sort_sign (cmp p q) \<le> 0 \<longleftrightarrow> localeCompare rt (fst q) (fst p) \<le> 0" for p q
    by (cases p; cases q) (simp add: cmp_def sort_sign_of_int del: sort_sign.simps)
  from lc have total: "localeCompare rt x y \<le> 0 \<or> localeCompare rt y x \<le> 0" for x y
    unfolding consistent_comparator_def by (metis not_less order_less_imp_le)
  from lc have trans: "localeCompare rt x y \<le> 0 \<Longrightarrow> localeCompare rt y z \<le> 0 \<Longrightarrow>
      localeCompare rt x z \<le> 0" for x y z
    unfolding consistent_comparator_def by blast
  have "sorted_wrt (\<lambda>p q. sort_sign (cmp p q) \<le> 0) (array_sort cmp (object_entries acc))"
  proof (rule sorted_array_sort)
    show "\<forall>a\<in>set (object_entries acc). \<forall>b\<in>set (object_entries acc).
            sort_sign (cmp a b) \<le> 0 \<or> sort_sign (cmp b a) \<le> 0"
      unfolding le using total by blast
    show "\<forall>a\<in>set (object_entries acc). \<forall>b\<in>set (object_entries acc).
            \<forall>c\<in>set (object_entries acc).
            sort_sign (cmp a b) \<le> 0 \<longrightarrow> sort_sign (cmp b c) \<le> 0 \<longrightarrow> sort_sign (cmp a c) \<le> 0"
      unfolding le using trans by blast
  qed
  then have by_lc: "sorted_wrt (\<lambda>p q. localeCompare rt (fst q) (fst p) \<le> 0) gs"
    unfolding gs_def[symmetric] le .
  have lexico: "sorted_wrt (\<lambda>p q. fst q < fst p) gs"
    if lex: "\<forall>r\<in>set rs. \<forall>r'\<in>set rs.
               (localeCompare rt (dateKey r) (dateKey r') < 0) = (dateKey r < dateKey r') \<and>
               (localeCompare rt (dateKey r) (dateKey r') = 0) = (dateKey r = dateKey r')"
  proof -
    have agree: "localeCompare rt (fst q) (fst p) \<le> 0 \<longleftrightarrow> fst q \<le> fst p"
      if "p \<in> set gs" "q \<in> set gs" for p q
    proof -
      from key_in[OF that(1)] key_in[OF that(2)] obtain r r'
        where "r \<in> set rs" "dateKey r = fst p" "r' \<in> set rs" "dateKey r' = fst q" by blast
      with lex have "(localeCompare rt (fst q) (fst p) < 0) = (fst q < fst p)"
        and "(localeCompare rt (fst q) (fst p) = 0) = (fst q = fst p)" by metis+
      then show ?thesis by (metis le_less)
    qed
    from by_lc have "sorted_wrt (\<lambda>p q. fst q \<le> fst p) gs"
      by (rule sorted_wrt_mono_rel[rotated]) (use agree in simp)
    then show ?thesis using dist by (rule strictly_descending)
  qed
  from res part dist groups by_lc lexico show ?thesis unfolding fs_def by blast
qed

text \<open>
  The example of the specification: B and A under 2 January (A's date carries a time),
  C under 1 January, the later day first.
\<close>

theorem C7_groupReportsByDate_witness:
  "groupReportsByDate example_runtime example_reports [] None None =
     Inr [(''2024-01-02'', [mk_report ''1'' ''B'' True [''x''] ''2024-01-02'',
                            mk_report ''2'' ''A'' False [] ''2024-01-02T10:30:00Z'']),
          (''2024-01-01'', [mk_report ''3'' ''C'' True [''y''] ''2024-01-01''])] \<and>
   (\<exists>gs. groupReportsByDate example_runtime example_reports [] None None = Inr gs \<and>
      mset (concat (map snd gs)) =
        mset (filterReports example_runtime example_reports [] None None) \<and>
      distinct (map fst gs) \<and>
      sorted_wrt (\<lambda>p q. localeCompare example_runtime (fst q) (fst p) \<le> 0) gs \<and>
      sorted_wrt (\<lambda>p q. fst q < fst p) gs)"
proof -
  have own: "\<forall>r\<in>set example_reports. dateKey r \<notin> set inherited_properties"
    by (simp add: example_reports_def mk_report_def dateKey_def inherited_properties_def)
  have lex: "\<forall>r\<in>set example_reports. \<forall>r'\<in>set example_reports.
      (localeCompare example_runtime (dateKey r) (dateKey r') < 0) = (dateKey r < dateKey r') \<and>
      (localeCompare example_runtime (dateKey r) (dateKey r') = 0) = (dateKey r = dateKey r')"
    by (simp add: example_runtime_def code_unit_compare_less code_unit_compare_eq)
  from C7_groupReportsByDate_partition[OF own consistent_example_runtime, of "[]" None None] lex
  obtain gs where gs: "groupReportsByDate example_runtime example_reports [] None None = Inr gs"
    "mset (concat (map snd gs)) = mset (filterReports example_runtime example_reports [] None None)"
    "distinct (map fst gs)"
    "sorted_wrt (\<lambda>p q. localeCompare example_runtime (fst q) (fst p) \<le> 0) gs"
    "sorted_wrt (\<lambda>p q. fst q < fst p) gs"
    by blast
  have groups: "groupReportsByDate example_runtime example_reports [] None None =
     Inr [(''2024-01-02'', [mk_report ''1'' ''B'' True [''x''] ''2024-01-02'',
                            mk_report ''2'' ''A'' False [] ''2024-01-02T10:30:00Z'']),
          (''2024-01-01'', [mk_report ''3'' ''C'' True [''y''] ''2024-01-01''])]"
    by (simp add: Let_def groupReportsByDate_def filterReports_def example_reports_def
        mk_report_def group_step_def dateKey_def inherited_properties_def object_entries_def
        is_array_index_def is_digit_def array_sort_def example_runtime_def
        code_unit_compare_def)
  from gs groups show ?thesis by blast
qed

text \<open>
  The claim as first stated holds for every record list and orders the keys
  lexicographically. A record dated \<open>constructor\<close> makes the function throw. And with a
  \<^verbatim>\<open>localeCompare\<close> that puts \<open>a\<close> before \<open>B\<close>, the keys \<open>a\<close> and \<open>B\<close> come out as
  \<open>B\<close>, \<open>a\<close>, though \<open>B\<close> is the smaller of the two by code unit.
\<close>

theorem C7_groupReportsByDate_counterexample:
  "groupReportsByDate example_runtime
     [mk_report ''7'' ''G'' True [] ''constructor''] [] None None = Inl TypeError \<and>
   groupReportsByDate dictionary_runtime
     [mk_report ''8'' ''H'' True [] ''a'', mk_report ''9'' ''I'' True [] ''B''] [] None None =
     Inr [(''B'', [mk_report ''9'' ''I'' True [] ''B'']),
          (''a'', [mk_report ''8'' ''H'' True [] ''a''])] \<and>
   ''B'' < ''a''"
  by (simp add: Let_def groupReportsByDate_def filterReports_def mk_report_def
      group_step_def dateKey_def inherited_properties_def object_entries_def
      is_array_index_def is_digit_def array_sort_def example_runtime_def dictionary_runtime_def
      dictionary_compare_def code_unit_compare_def lower_char_def)

section \<open>Pagination: the slice and the page count\<close>

text \<open>
  The slice of page \<open>page\<close> at \<open>p\<close> rows a page is the elements from offset
  \<open>(page - 1) * p\<close> up to \<open>page * p\<close>, clipped to the sequence; the expression of the
  page count is the ceiling of the quotient, at least 2 where the controls are rendered.
\<close>

lemma page_count_div: "page_count n ps = - ((- int n) div size_or ps 1)"
  unfolding page_count_def by (metis ceiling_divide_eq_div of_int_of_nat_eq)

lemma page_count_real: "page_count n (Rows p) = \<lceil>real n / real p\<rceil>"
proof -
  have "\<lceil>real n / real p\<rceil> = \<lceil>real_of_int (int n) / real_of_int (int p)\<rceil>" by simp
  also have "\<dots> = - ((- int n) div int p)" by (rule ceiling_divide_eq_div)
  finally show ?thesis by (simp add: page_count_div size_or_def)
qed

lemma slice_take_drop: "slice xs (int a) (int a + int p) = take p (drop a xs)"
proof -
  consider "length xs \<le> a" | "a < length xs" "a + p \<le> length xs"
    | "a < length xs" "length xs < a + p" by linarith
  then show ?thesis
  proof cases
    case 1
    then have "min (int a) (int (length xs)) = int (length xs)"
      and "min (int a + int p) (int (length xs)) = int (length xs)" by simp_all
    with 1 show ?thesis by (simp add: slice_def Let_def)
  next
    case 2
    then have "min (int a) (int (length xs)) = int a"
      and "min (int a + int p) (int (length xs)) = int a + int p" by simp_all
    then show ?thesis by (simp add: slice_def Let_def)
  next
    case 3
    then have "min (int a) (int (length xs)) = int a"
      and "min (int a + int p) (int (length xs)) = int (length xs)" by simp_all
    moreover have "nat (int (length xs) - int a) = length xs - a" by simp
    moreover have "take (length xs - a) (drop a xs) = take p (drop a xs)"
      using 3 by simp
    ultimately show ?thesis by (simp add: slice_def Let_def)
  qed
qed

lemma getPaginated_Rows:
  assumes "1 \<le> page"
  shows "getPaginated (Rows p) page xs = take p (drop ((nat page - 1) * p) xs)"
proof -
  define k where "k = nat page - 1"
  with assms have page: "page = int k + 1" by simp
  have "getPaginated (Rows p) page xs =
          slice xs ((page - 1) * int p) ((page - 1) * int p + int p)"
    by (simp add: getPaginated_def size_or_def Let_def)
  also have "(page - 1) * int p = int (k * p)" by (simp add: page)
  finally have "getPaginated (Rows p) page xs = slice xs (int (k * p)) (int (k * p) + int p)" .
  then show ?thesis
    using slice_take_drop[of xs "k * p" p] by (simp add: k_def)
qed

lemma page_count_ge_2:
  assumes "0 < p" and "p < n"
  shows "2 \<le> page_count n (Rows p)"
proof -
  have "real n / real p > 1" using assms by simp
  then have "\<lceil>real n / real p\<rceil> > 1" by linarith
  then show ?thesis by (simp add: page_count_real)
qed


section \<open>The view under neutral controls\<close>

text \<open>
  C3. With an empty search term, no tag filter, no status filter, no sort field or
  direction, grouping off, the page size \<open>All\<close> and page 1, what is rendered is the table
  of exactly the reports held, in their order.
\<close>

theorem C3_neutral_identity:
  "render rt (st\<lparr>groupByDate := False, searchTerm := [], activeTagFilter := None,
                 activeStatusFilter := None,
                 sortState := \<lparr>field = None, direction = None\<rparr>,
                 gridPageSize := AllRows, gridCurrentPage := 1\<rparr>) =
     Inr (Table (reports st))"
  by (simp add: render_def getPaginatedReports_def getPaginated_def processedReports_def
      sortReports_def filterReports_def)

text \<open>The example reports come out as they are.\<close>

theorem C3_neutral_identity_witness:
  "render example_runtime
     ((initial example_reports)\<lparr>groupByDate := False, searchTerm := [], activeTagFilter := None,
                 activeStatusFilter := None,
                 sortState := \<lparr>field = None, direction = None\<rparr>,
                 gridPageSize := AllRows, gridCurrentPage := 1\<rparr>) =
     Inr (Table example_reports)"
proof -
  have "reports (initial example_reports) = example_reports" by (simp add: initial_def)
  with C3_neutral_identity[of example_runtime "initial example_reports"] show ?thesis
    by (rule subst[where P = "\<lambda>x. render example_runtime
     ((initial example_reports)\<lparr>groupByDate := False, searchTerm := [], activeTagFilter := None,
                 activeStatusFilter := None,
                 sortState := \<lparr>field = None, direction = None\<rparr>,
                 gridPageSize := AllRows, gridCurrentPage := 1\<rparr>) = Inr (Table x)", rotated])
qed

section \<open>The sort direction as a state machine\<close>

text \<open>
  C9. A click on a grid header \<open>f\<close> makes \<open>f\<close> the one sort field; if \<open>f\<close> was the
  field already, the direction steps none, ascending, descending, none, and otherwise it
  becomes ascending. A click on CSV column \<open>i\<close> does the same with the column and the
  direction of the CSV view, and leaving descending clears the column as well. From a
  state without direction, three clicks on the same header, or on the same column, end
  without direction, and the sorted list, or the processed table, is what it was: the
  unsorted order.
\<close>

theorem C9_sort_cycle:
  "field (handleSort (Some f) s) = Some f \<and>
   (field s = Some f \<longrightarrow>
      direction (handleSort (Some f) s) =
        (case direction s of None \<Rightarrow> Some Asc | Some Asc \<Rightarrow> Some Desc | Some Desc \<Rightarrow> None)) \<and>
   (field s \<noteq> Some f \<longrightarrow> direction (handleSort (Some f) s) = Some Asc) \<and>
   (csvSortField st = Some i \<longrightarrow>
      csvSortDirection (clickCsvHeader i st) =
        (case csvSortDirection st of
           None \<Rightarrow> Some Asc | Some Asc \<Rightarrow> Some Desc | Some Desc \<Rightarrow> None) \<and>
      csvSortField (clickCsvHeader i st) =
        (if csvSortDirection st = Some Desc then None else Some i)) \<and>
   (csvSortField st \<noteq> Some i \<longrightarrow>
      csvSortField (clickCsvHeader i st) = Some i \<and>
      csvSortDirection (clickCsvHeader i st) = Some Asc) \<and>
   (direction s = None \<longrightarrow>
      direction (handleSort (Some f) (handleSort (Some f) (handleSort (Some f) s))) = None \<and>
      sortReports rt rs (handleSort (Some f) (handleSort (Some f) (handleSort (Some f) s))) = rs \<and>
      sortReports rt rs s = rs) \<and>
   (csvSortDirection st = None \<longrightarrow>
      csvSortField (clickCsvHeader i (clickCsvHeader i (clickCsvHeader i st))) = None \<and>
      csvSortDirection (clickCsvHeader i (clickCsvHeader i (clickCsvHeader i st))) = None \<and>
      processedCsv rt (clickCsvHeader i (clickCsvHeader i (clickCsvHeader i st))) table =
        processedCsv rt st table)"
proof (intro conjI impI)
  show "field (handleSort (Some f) s) = Some f" by (simp add: handleSort_def)
next
  assume "field s = Some f"
  then show "direction (handleSort (Some f) s) =
      (case direction s of None \<Rightarrow> Some Asc | Some Asc \<Rightarrow> Some Desc | Some Desc \<Rightarrow> None)"
    by (simp add: handleSort_def split: option.splits SortDirection.splits)
next
  assume "field s \<noteq> Some f"
  then show "direction (handleSort (Some f) s) = Some Asc" by (simp add: handleSort_def)
next
  assume "csvSortField st = Some i"
  then show "csvSortDirection (clickCsvHeader i st) =
      (case csvSortDirection st of
         None \<Rightarrow> Some Asc | Some Asc \<Rightarrow> Some Desc | Some Desc \<Rightarrow> None)"
    by (simp add: clickCsvHeader_def split: option.splits SortDirection.splits)
next
  assume "csvSortField st = Some i"
  then show "csvSortField (clickCsvHeader i st) =
      (if csvSortDirection st = Some Desc then None else Some i)"
    by (simp add: clickCsvHeader_def)
next
  assume "csvSortField st \<noteq> Some i"
  then show "csvSortField (clickCsvHeader i st) = Some i" by (simp add: clickCsvHeader_def)
next
  assume "csvSortField st \<noteq> Some i"
  then show "csvSortDirection (clickCsvHeader i st) = Some Asc" by (simp add: clickCsvHeader_def)
next
  assume n: "direction s = None"
  then show three: "direction (handleSort (Some f) (handleSort (Some f) (handleSort (Some f) s))) = None"
    by (simp add: handleSort_def)
  then show "sortReports rt rs (handleSort (Some f) (handleSort (Some f) (handleSort (Some f) s))) = rs"
    by (simp add: sortReports_def split: option.splits)
  from n show "sortReports rt rs s = rs"
    by (simp add: sortReports_def split: option.splits)
next
  assume n: "csvSortDirection st = None"
  let ?st3 = "clickCsvHeader i (clickCsvHeader i (clickCsvHeader i st))"
  from n show f3: "csvSortField ?st3 = None"
    by (simp add: clickCsvHeader_def)
  from n show d3: "csvSortDirection ?st3 = None"
    by (simp add: clickCsvHeader_def)
  have "csvFilter ?st3 = csvFilter st" by (simp add: clickCsvHeader_def)
  with n f3 d3 show "processedCsv rt ?st3 table = processedCsv rt st table"
    by (simp add: processedCsv_def getProcessedCsvData_def Let_def split: option.splits)
qed

text \<open>From the initial state: one click sorts ascending, three clicks sort nothing.\<close>

theorem C9_sort_cycle_witness:
  "direction (handleSort (Some Name) \<lparr>field = None, direction = None\<rparr>) = Some Asc \<and>
   direction (handleSort (Some Name) (handleSort (Some Name) (handleSort (Some Name)
     \<lparr>field = None, direction = None\<rparr>))) = None \<and>
   sortReports example_runtime example_reports
     (handleSort (Some Name) (handleSort (Some Name) (handleSort (Some Name)
        \<lparr>field = None, direction = None\<rparr>))) = example_reports \<and>
   csvSortField (clickCsvHeader 0 (initial example_reports)) = Some 0 \<and>
   csvSortDirection (clickCsvHeader 0 (initial example_reports)) = Some Asc \<and>
   csvSortField (clickCsvHeader 0 (clickCsvHeader 0 (clickCsvHeader 0
     (initial example_reports)))) = None"
proof -
  let ?s = "\<lparr>field = None, direction = None\<rparr>"
  let ?st = "initial example_reports"
  note c9 = C9_sort_cycle[of Name ?s ?st 0 example_runtime example_reports example_table]
  have s1: "field ?s \<noteq> Some Name" and s2: "direction ?s = None" by simp_all
  have t1: "csvSortField ?st \<noteq> Some 0" and t2: "csvSortDirection ?st = None"
    by (simp_all add: initial_def)
  from c9 s1 have a: "direction (handleSort (Some Name) ?s) = Some Asc" by blast
  from c9 s2 have b: "direction (handleSort (Some Name) (handleSort (Some Name)
      (handleSort (Some Name) ?s))) = None"
    and c: "sortReports example_runtime example_reports (handleSort (Some Name)
      (handleSort (Some Name) (handleSort (Some Name) ?s))) = example_reports" by blast+
  from c9 t1 have d: "csvSortField (clickCsvHeader 0 ?st) = Some 0"
    and e: "csvSortDirection (clickCsvHeader 0 ?st) = Some Asc" by blast+
  from c9 t2 have f: "csvSortField (clickCsvHeader 0 (clickCsvHeader 0 (clickCsvHeader 0 ?st))) = None"
    by blast
  from a b c d e f show ?thesis by (intro conjI)
qed

section \<open>The CSV detail view: filter and column sort\<close>


lemma parseCSV_rows:
  "\<forall>row\<in>set (rows (parseCSV rt csv)). length row = length (headers (parseCSV rt csv))"
  by (simp add: parseCSV_def Let_def)





text \<open>\<^verbatim>\<open>parseCSV\<close> on a small file: cells are trimmed, short and empty lines dropped.\<close>

lemma parseCSV_example: "parseCSV example_runtime (''name, n'' @ [CHR 0x0A] @ ''abc,10'' @ [CHR 0x0A] @ ''xyz , 2'' @ [CHR 0x0A] @ ''cab,'' @ [CHR 0x0A] @ ''only'' @ [CHR 0x0A] @ '','' @ [CHR 0x0A]) = example_table"
  by (simp add: parseCSV_def example_runtime_def ascii_trim_def is_space_def example_table_def)



text \<open>
  C10. \<^verbatim>\<open>Number('')\<close> is 0. Take two rows, one with the empty string in the sort
  column, one with a cell there that \<^verbatim>\<open>Number\<close> reads as the number \<open>n\<close>. The
  comparator of the column sort on the two is the difference of 0 and \<open>n\<close>, never the
  string comparison, and \<^verbatim>\<open>getProcessedCsvData\<close> returns the two rows in the order of 0
  and \<open>n\<close>: ascending, the empty cell first iff \<open>0 \<le> n\<close> (or \<open>0 = n\<close> and it came
  first), and the other way round descending.
\<close>

theorem C10_empty_cell_is_zero:
  assumes a: "a ! c = []" and b: "Number rt (b ! c) = Fin n"
  shows "Number rt [] = Fin 0 \<and>
         rows (getProcessedCsvData rt [] (Some c) (Some Asc) \<lparr>headers = hs, rows = [a, b]\<rparr>) =
           (if 0 \<le> n then [a, b] else [b, a]) \<and>
         rows (getProcessedCsvData rt [] (Some c) (Some Asc) \<lparr>headers = hs, rows = [b, a]\<rparr>) =
           (if n \<le> 0 then [b, a] else [a, b]) \<and>
         rows (getProcessedCsvData rt [] (Some c) (Some Desc) \<lparr>headers = hs, rows = [a, b]\<rparr>) =
           (if n \<le> 0 then [a, b] else [b, a]) \<and>
         rows (getProcessedCsvData rt [] (Some c) (Some Desc) \<lparr>headers = hs, rows = [b, a]\<rparr>) =
           (if 0 \<le> n then [b, a] else [a, b]) \<and>
         consistent_on (\<lambda>x y. compareCells rt d (x ! c) (y ! c)) [a, b] \<and>
         compareCells rt Asc (a ! c) (b ! c) = Fin (0 - n) \<and>
         compareCells rt Asc (b ! c) (a ! c) = Fin (n - 0) \<and>
         compareCells rt Desc (a ! c) (b ! c) = Fin (n - 0) \<and>
         compareCells rt Desc (b ! c) (a ! c) = Fin (0 - n)"
proof -
  have zero: "Number rt [] = Fin 0" by (simp add: Number_def)
  have ab: "compareCells rt dir (a ! c) (b ! c) = (if dir = Asc then Fin (0 - n) else Fin (n - 0))"
    for dir using zero a b by (simp add: compareCells_def isNaN_def Let_def)
  have ba: "compareCells rt dir (b ! c) (a ! c) = (if dir = Asc then Fin (n - 0) else Fin (0 - n))"
    for dir using zero a b by (simp add: compareCells_def isNaN_def Let_def)
  have aa: "compareCells rt dir (a ! c) (a ! c) = Fin 0"
    for dir using zero a by (simp add: compareCells_def isNaN_def Let_def)
  have bb: "compareCells rt dir (b ! c) (b ! c) = Fin 0"
    for dir using b by (simp add: compareCells_def isNaN_def Let_def)
  have cons: "consistent_on (\<lambda>x y. compareCells rt d (x ! c) (y ! c)) [a, b]"
    unfolding consistent_on_def by (auto simp: ab ba aa bb)
  have r1: "rows (getProcessedCsvData rt [] (Some c) (Some Asc) \<lparr>headers = hs, rows = [a, b]\<rparr>) =
           (if 0 \<le> n then [a, b] else [b, a])"
    by (simp add: getProcessedCsvData_def Let_def array_sort_def ab)
  have r2: "rows (getProcessedCsvData rt [] (Some c) (Some Asc) \<lparr>headers = hs, rows = [b, a]\<rparr>) =
           (if n \<le> 0 then [b, a] else [a, b])"
    by (simp add: getProcessedCsvData_def Let_def array_sort_def ba)
  have r3: "rows (getProcessedCsvData rt [] (Some c) (Some Desc) \<lparr>headers = hs, rows = [a, b]\<rparr>) =
           (if n \<le> 0 then [a, b] else [b, a])"
    by (simp add: getProcessedCsvData_def Let_def array_sort_def ab)
  have r4: "rows (getProcessedCsvData rt [] (Some c) (Some Desc) \<lparr>headers = hs, rows = [b, a]\<rparr>) =
           (if 0 \<le> n then [b, a] else [a, b])"
    by (simp add: getProcessedCsvData_def Let_def array_sort_def ba)
  have c1: "compareCells rt Asc (a ! c) (b ! c) = Fin (0 - n)" using ab[of Asc] by simp
  have c2: "compareCells rt Asc (b ! c) (a ! c) = Fin (n - 0)" using ba[of Asc] by simp
  have c3: "compareCells rt Desc (a ! c) (b ! c) = Fin (n - 0)" using ab[of Desc] by simp
  have c4: "compareCells rt Desc (b ! c) (a ! c) = Fin (0 - n)" using ba[of Desc] by simp
  from zero r1 r2 r3 r4 cons c1 c2 c3 c4 show ?thesis by (intro conjI)
qed

text \<open>
  The empty cell against \<open>-5\<close>: ascending, \<open>-5\<close> comes first, as \<open>-5 < 0\<close>; as
  strings the empty one would come first.
\<close>

theorem C10_empty_cell_witness:
  "rows (getProcessedCsvData example_runtime [] (Some 1) (Some Asc)
           \<lparr>headers = [''name'', ''n''], rows = [[''cab'', ''''], [''neg'', ''-5'']]\<rparr>) =
     [[''neg'', ''-5''], [''cab'', '''']] \<and>
   rows (getProcessedCsvData example_runtime [] (Some 1) (Some Desc)
           \<lparr>headers = [''name'', ''n''], rows = [[''neg'', ''-5''], [''cab'', '''']]\<rparr>) =
     [[''cab'', ''''], [''neg'', ''-5'']] \<and>
   compareCells example_runtime Asc ([''cab'', ''''] ! 1) ([''neg'', ''-5''] ! 1) = Fin 5 \<and>
   localeCompare example_runtime [] ''-5'' = - 1"
proof -
  have cell: "[''cab'', ''''] ! 1 = ([] :: string)" by simp
  have five: "Number example_runtime ([''neg'', ''-5''] ! 1) = Fin (- 5)"
    by (simp add: Number_def example_runtime_def example_Number_def digits_value_def
        is_digit_def)
  note c10 = C10_empty_cell_is_zero[OF cell five, of "[''name'', ''n'']" Asc]
  from c10 have "rows (getProcessedCsvData example_runtime [] (Some 1) (Some Asc)
           \<lparr>headers = [''name'', ''n''], rows = [[''cab'', ''''], [''neg'', ''-5'']]\<rparr>) =
     (if (0::rat) \<le> - 5 then [[''cab'', ''''], [''neg'', ''-5'']]
      else [[''neg'', ''-5''], [''cab'', '''']])" by blast
  then have r1: "rows (getProcessedCsvData example_runtime [] (Some 1) (Some Asc)
           \<lparr>headers = [''name'', ''n''], rows = [[''cab'', ''''], [''neg'', ''-5'']]\<rparr>) =
     [[''neg'', ''-5''], [''cab'', '''']]" by simp
  from c10 have "rows (getProcessedCsvData example_runtime [] (Some 1) (Some Desc)
           \<lparr>headers = [''name'', ''n''], rows = [[''neg'', ''-5''], [''cab'', '''']]\<rparr>) =
     (if (0::rat) \<le> - 5 then [[''neg'', ''-5''], [''cab'', '''']]
      else [[''cab'', ''''], [''neg'', ''-5'']])" by blast
  then have r2: "rows (getProcessedCsvData example_runtime [] (Some 1) (Some Desc)
           \<lparr>headers = [''name'', ''n''], rows = [[''neg'', ''-5''], [''cab'', '''']]\<rparr>) =
     [[''cab'', ''''], [''neg'', ''-5'']]" by simp
  from c10 have "compareCells example_runtime Asc ([''cab'', ''''] ! 1) ([''neg'', ''-5''] ! 1) =
     Fin (0 - (- 5))" by blast
  then have c: "compareCells example_runtime Asc ([''cab'', ''''] ! 1) ([''neg'', ''-5''] ! 1) =
     Fin 5" by simp
  have l: "localeCompare example_runtime [] ''-5'' = - 1"
    by (simp add: example_runtime_def code_unit_compare_def)
  from r1 r2 c l show ?thesis by (intro conjI)
qed

section \<open>Where the code departs from the specification\<close>

text \<open>
  C1. The claim: after any pagination action and any change of the filters, the page
  number lies between 1 and the page count of the filtered and sorted result. The code:
  six reports, grouping off, five rows per page. Next leads to page 2. The search term
  \<open>a\<close> then leaves one report, so one page; the page number stays 2, and the table
  body, \<^verbatim>\<open>getPaginatedReports(processedReports)\<close>, is empty. The handlers of the filters
  do not touch the page number (the handler of the page size resets it to 1), and the
  page controls count \<^verbatim>\<open>reports\<close>, not \<^verbatim>\<open>processedReports\<close>.
\<close>

theorem C1_page_after_filter_change:
  "gridCurrentPage (run (initial more_reports)
      [ToggleGrouping, SelectGridPageSize (Rows 5), Next, SetSearchTerm ''a'']) = 2 \<and>
   processedReports example_runtime (run (initial more_reports)
      [ToggleGrouping, SelectGridPageSize (Rows 5), Next, SetSearchTerm ''a'']) =
     [mk_report ''2'' ''A'' False [] ''2024-01-02T10:30:00Z''] \<and>
   page_count (length (processedReports example_runtime (run (initial more_reports)
      [ToggleGrouping, SelectGridPageSize (Rows 5), Next, SetSearchTerm ''a''])))
      (Rows 5) = 1 \<and>
   render example_runtime (run (initial more_reports)
      [ToggleGrouping, SelectGridPageSize (Rows 5), Next, SetSearchTerm ''a'']) =
     Inr (Table [])"
  by (simp add: run_def initial_def more_reports_def example_reports_def mk_report_def
      grid_controls_def controls_shown_def grid_page_count_def page_count_div size_or_def
      processedReports_def filterReports_def sortReports_def example_runtime_def lower_char_def
      render_def getPaginatedReports_def getPaginated_def slice_def Let_def)

text \<open>
  C2. The claim: the page count is that of the sequence that is paginated,
  \<open>\<lceil>count / p\<rceil>\<close> and at least 1. The code: six reports, grouping off, five rows per
  page, and the search term \<open>a\<close>, which leaves one report. The sequence paginated,
  \<^verbatim>\<open>processedReports\<close>, has that one record, which is its only page; the footer shows
  page 1 of 2, because the page controls count \<^verbatim>\<open>reports\<close>, not
  \<^verbatim>\<open>processedReports\<close>. The slice itself is as the claim says (lemma
  \<open>getPaginated_Rows\<close>).
\<close>

theorem C2_page_count_of_all_reports:
  "grid_footer (run (initial more_reports)
      [ToggleGrouping, SelectGridPageSize (Rows 5), SetSearchTerm ''a'']) = Some (1, 2) \<and>
   processedReports example_runtime (run (initial more_reports)
      [ToggleGrouping, SelectGridPageSize (Rows 5), SetSearchTerm ''a'']) =
     [mk_report ''2'' ''A'' False [] ''2024-01-02T10:30:00Z''] \<and>
   getPaginatedReports (run (initial more_reports)
      [ToggleGrouping, SelectGridPageSize (Rows 5), SetSearchTerm ''a''])
     (processedReports example_runtime (run (initial more_reports)
        [ToggleGrouping, SelectGridPageSize (Rows 5), SetSearchTerm ''a''])) =
     [mk_report ''2'' ''A'' False [] ''2024-01-02T10:30:00Z''] \<and>
   \<lceil>real (length (processedReports example_runtime (run (initial more_reports)
      [ToggleGrouping, SelectGridPageSize (Rows 5), SetSearchTerm ''a'']))) / real 5\<rceil> = 1"
proof -
  let ?S = "run (initial more_reports)
      [ToggleGrouping, SelectGridPageSize (Rows 5), SetSearchTerm ''a'']"
  have footer: "grid_footer ?S = Some (1, 2)"
    by (simp add: run_def initial_def more_reports_def example_reports_def grid_footer_def
        grid_controls_def controls_shown_def grid_page_count_def page_count_div size_or_def)
  have filtered: "processedReports example_runtime ?S =
     [mk_report ''2'' ''A'' False [] ''2024-01-02T10:30:00Z'']"
    by (simp add: run_def initial_def more_reports_def example_reports_def mk_report_def
        processedReports_def filterReports_def sortReports_def example_runtime_def lower_char_def)
  have shown: "getPaginatedReports ?S (processedReports example_runtime ?S) =
     [mk_report ''2'' ''A'' False [] ''2024-01-02T10:30:00Z'']"
    unfolding filtered
    by (simp add: run_def initial_def getPaginatedReports_def getPaginated_def slice_def
        size_or_def Let_def)
  have "\<lceil>(1 :: real) / 5\<rceil> = 1" by linarith
  then have pages: "\<lceil>real (length (processedReports example_runtime ?S)) / real 5\<rceil> = 1"
    unfolding filtered by simp
  from footer filtered shown pages show ?thesis by (intro conjI)
qed

text \<open>
  C4. The claim: when the write fails, the reports in memory stay as they are. The code:
  with a disk that cannot be written, \<^verbatim>\<open>toggleReportStatus\<close> catches the failure, logs
  it and returns \<^verbatim>\<open>false\<close>; \<^verbatim>\<open>handleToggleActive\<close> ignores the value and flips the
  flag of report B in memory, while the disk keeps B active.
\<close>

theorem C4_failed_write_flips_flag:
  "handleToggleActive (initial example_reports, example_disk\<lparr>writable := False\<rparr>) ''1'' True =
     ((initial example_reports)\<lparr>reports :=
         [mk_report ''1'' ''B'' False [''x''] ''2024-01-02'',
          mk_report ''2'' ''A'' False [] ''2024-01-02T10:30:00Z'',
          mk_report ''3'' ''C'' True [''y''] ''2024-01-01'']\<rparr>,
      example_disk\<lparr>writable := False\<rparr>,
      [''Error toggling report status:''])"
  by (simp add: handleToggleActive_def toggleReportStatus_def readFile_def writeFile_def
      example_disk_def initial_def example_reports_def mk_report_def Let_def)

end
